theory Spec2Isabelle
  imports Complex_Main "HOL-Library.Sublist" "HOL-Library.AList" "HOL-Library.Monad_Syntax"
begin

section \<open>Text and cells\<close>

text \<open>
  The parser of \<^verbatim>\<open>data_processor.py\<close> works on Python strings. A \<^typ>\<open>char\<close> stands
  for a code point below 256; text with code points beyond that range is outside the model.

  \<^verbatim>\<open>str.isspace\<close>, which \<^verbatim>\<open>str.strip()\<close> and the regular expression class
  \<^verbatim>\<open>\s\<close> share: tab, line feed, vertical tab, form feed, carriage return, the four
  separators 28 to 31, space, next line (133) and no-break space (160).
\<close>

definition py_isspace :: "char \<Rightarrow> bool" where
  "py_isspace c = (of_char c \<in> {9::nat, 10, 11, 12, 13, 28, 29, 30, 31, 32, 133, 160})"

definition py_strip :: "string \<Rightarrow> string" where
  "py_strip s = rev (dropWhile py_isspace (rev (dropWhile py_isspace s)))"

text \<open>
  \<^verbatim>\<open>str.lower()\<close>: the letters A to Z and the capital letters of the upper half
  (192 to 222, the multiplication sign 215 apart) move up by 32.
\<close>

definition lower_char :: "char \<Rightarrow> char" where
  "lower_char c =
     (let n = of_char c :: nat
      in if (65 \<le> n \<and> n \<le> 90) \<or> (192 \<le> n \<and> n \<le> 222 \<and> n \<noteq> 215)
         then char_of (n + 32) else c)"

definition py_lower :: "string \<Rightarrow> string" where
  "py_lower s = map lower_char s"

text \<open>\<^verbatim>\<open>sub in s\<close> on strings: \<open>sub\<close> occurs in \<open>s\<close> as a contiguous run.\<close>

fun py_in :: "string \<Rightarrow> string \<Rightarrow> bool" where
  "py_in sub [] = (sub = [])"
| "py_in sub (c # cs) = (prefix sub (c # cs) \<or> py_in sub cs)"

text \<open>
  A cell of the frame that \<^verbatim>\<open>pd.read_csv(file_path, header=None)\<close> returns. A column
  that holds any text is of dtype object: its cells are text or missing (\<open>NaN\<close>). That
  is every column with a text header, so every column of the role map and, in a sheet
  with its headers, the two identity columns. \<open>Num\<close> is a Python integer: the cell of a
  column of integers only, and the default \<^verbatim>\<open>0\<close> that the code itself supplies for a
  work time. Cells of type float other than NaN (columns of numbers with gaps) are not
  modelled.
\<close>

datatype cell = NaN | Str string | Num int

function digits_of :: "int \<Rightarrow> string" where
  "digits_of n =
     (if n < 10 then [char_of (48 + nat n)]
      else digits_of (n div 10) @ [char_of (48 + nat (n mod 10))])"
  by pat_completeness auto
termination
  by (relation "measure nat") auto

declare digits_of.simps [simp del]

fun py_str :: "cell \<Rightarrow> string" where
  "py_str NaN = ''nan''"
| "py_str (Str s) = s"
| "py_str (Num i) = (if i < 0 then CHR ''-'' # digits_of (- i) else digits_of i)"

section \<open>The raw frame\<close>

text \<open>
  \<^verbatim>\<open>df_raw\<close> is a list of rows. \<^verbatim>\<open>df_raw.shape[1]\<close> is the width of the first
  row; \<^verbatim>\<open>read_csv\<close> fills a line that has fewer fields with NaN, which is what
  \<open>cell_at\<close> reads there.
\<close>

type_synonym row = "cell list"
type_synonym frame = "row list"

definition total_cols :: "frame \<Rightarrow> nat" where
  "total_cols df_raw = (case df_raw of [] \<Rightarrow> 0 | r # _ \<Rightarrow> length r)"

definition cell_at :: "row \<Rightarrow> nat \<Rightarrow> cell" where
  "cell_at r c = (if c < length r then r ! c else NaN)"

subsection \<open>Identity columns: forward fill and the rows that stay\<close>

text \<open>
  \<^verbatim>\<open>data[1].replace(r'^\s*$', np.nan, regex=True)\<close> turns a text cell made of
  white space only (the empty text too) into NaN and leaves every other cell alone.
\<close>

definition blank_to_nan :: "cell \<Rightarrow> cell" where
  "blank_to_nan x = (case x of Str s \<Rightarrow> if list_all py_isspace s then NaN else Str s | _ \<Rightarrow> x)"

text \<open>\<^verbatim>\<open>Series.ffill()\<close>, with the last value seen above (NaN before any).\<close>

fun ffill :: "cell \<Rightarrow> cell list \<Rightarrow> cell list" where
  "ffill prev [] = []"
| "ffill prev (x # xs) = (if x = NaN then prev # ffill prev xs else x # ffill x xs)"

text \<open>
  \<^verbatim>\<open>data\<close> after lines 33 to 48: the rows from index 3 on, each with its forward-filled
  column 1 (employee name) and column 2 (location) beside it, those rows dropped whose
  column 1 is still NaN (\<^verbatim>\<open>dropna(subset=[1])\<close>). The role map only holds columns from
  7 on, so the rewritten columns 1 and 2 are read nowhere else.
\<close>

definition data_rows :: "frame \<Rightarrow> (cell \<times> cell \<times> row) list" where
  "data_rows df_raw =
     (let data = drop 3 df_raw;
          col1 = ffill NaN (map (\<lambda>r. blank_to_nan (cell_at r 1)) data);
          col2 = ffill NaN (map (\<lambda>r. blank_to_nan (cell_at r 2)) data)
      in filter (\<lambda>(emp_name, location, r). emp_name \<noteq> NaN) (zip col1 (zip col2 data)))"

subsection \<open>Column role map\<close>

text \<open>The \<^verbatim>\<open>if\<close>/\<^verbatim>\<open>elif\<close> chain of lines 84 to 99, in its order.\<close>

definition classify :: "string \<Rightarrow> string option" where
  "classify header_val =
     (if py_in ''Attendance'' header_val then Some ''Attendance_Status''
      else if py_in ''Activity Category'' header_val then Some ''Activity Category''
      else if py_in ''Task Priority'' header_val then Some ''Task Priority''
      else if py_in ''Start'' header_val then Some ''Start Time''
      else if py_in ''End'' header_val then Some ''End Time''
      else if py_in ''Work Time'' header_val \<or> py_in ''Mins'' header_val
        then Some ''Work Time (Mins)''
      else if py_in ''Description'' header_val then Some ''Description''
      else None)"

text \<open>
  The test of line 78 on a date-axis cell: the trimmed text is not empty and is not
  \<^verbatim>\<open>nan\<close> in any letter case.
\<close>

definition date_label :: "cell \<Rightarrow> string option" where
  "date_label x =
     (let val = py_strip (py_str x)
      in if val \<noteq> [] \<and> py_lower val \<noteq> ''nan'' then Some val else None)"

text \<open>
  Lines 77 to 79 (\<open>next_date\<close>): a date-axis cell with a label replaces the current
  date. Then the loop of lines 76 to 102 over the columns still to scan. \<^verbatim>\<open>col_map\<close> is a
  dictionary whose keys arrive in increasing order, each once: the association list
  in scan order is the dictionary with its iteration order.
\<close>

abbreviation (input) next_date :: "row \<Rightarrow> string option \<Rightarrow> nat \<Rightarrow> string option" where
  "next_date dates_row cur c \<equiv>
     (case date_label (cell_at dates_row c) of Some val \<Rightarrow> Some val | None \<Rightarrow> cur)"

fun scan_columns ::
  "row \<Rightarrow> row \<Rightarrow> nat list \<Rightarrow> string option \<Rightarrow> (nat \<times> string \<times> string) list" where
  "scan_columns dates_row headers_row [] current_date_str = []"
| "scan_columns dates_row headers_row (c # cs) current_date_str =
     (let current_date_str' = next_date dates_row current_date_str c;
          header_val = py_strip (py_str (cell_at headers_row c))
      in case (current_date_str', classify header_val) of
           (Some d, Some field) \<Rightarrow>
             (c, d, field) # scan_columns dates_row headers_row cs current_date_str'
         | _ \<Rightarrow> scan_columns dates_row headers_row cs current_date_str')"

definition col_map :: "frame \<Rightarrow> (nat \<times> string \<times> string) list" where
  "col_map df_raw = scan_columns (df_raw ! 1) (df_raw ! 2) [7 ..< total_cols df_raw] None"

subsection \<open>Row reconstruction\<close>

text \<open>
  \<^verbatim>\<open>row_tasks\<close> is a dictionary from date label to a dictionary from field to cell.
  Its iteration order matters (line 128), so it is an association list: a new key goes
  to the end, a known key is updated in place. The inner dictionary is only read with
  \<^verbatim>\<open>get\<close>, so it is a map.
\<close>

type_synonym task_data = "string \<rightharpoonup> cell"

fun group_cells ::
  "row \<Rightarrow> (nat \<times> string \<times> string) list \<Rightarrow> (string \<times> task_data) list \<Rightarrow>
   (string \<times> task_data) list" where
  "group_cells r [] row_tasks = row_tasks"
| "group_cells r ((col_idx, date_str, field) # cm) row_tasks =
     (let cell_val = cell_at r col_idx;
          task_data = (case map_of row_tasks date_str of None \<Rightarrow> Map.empty | Some td \<Rightarrow> td)
      in group_cells r cm (AList.update date_str (task_data(field \<mapsto> cell_val)) row_tasks))"

definition dict_get :: "task_data \<Rightarrow> string \<Rightarrow> cell \<Rightarrow> cell" where
  "dict_get d k dflt = (case d k of None \<Rightarrow> dflt | Some v \<Rightarrow> v)"

record 'w entry =
  Employee_Name :: cell
  Location :: cell
  Date :: string
  Attendance :: cell
  Activity_Category :: cell
  Task_Priority :: cell
  Start_Time :: cell
  End_Time :: cell
  Work_Time_Mins :: 'w
  Description :: cell

text \<open>The test of line 136 on one trimmed text.\<close>

definition no_text :: "string \<Rightarrow> bool" where
  "no_text s = (s = [] \<or> py_lower s = ''nan'')"

definition skip_task :: "task_data \<Rightarrow> bool" where
  "skip_task task_data =
     (let activity = py_strip (py_str (dict_get task_data ''Activity Category'' (Str '''')));
          desc = py_strip (py_str (dict_get task_data ''Description'' (Str '''')))
      in no_text activity \<and> no_text desc)"

definition make_entry :: "cell \<Rightarrow> cell \<Rightarrow> string \<Rightarrow> task_data \<Rightarrow> cell entry" where
  "make_entry emp_name location date_str task_data =
     \<lparr> Employee_Name = emp_name,
       Location = location,
       Date = date_str,
       Attendance = dict_get task_data ''Attendance_Status'' NaN,
       Activity_Category = dict_get task_data ''Activity Category'' NaN,
       Task_Priority = dict_get task_data ''Task Priority'' NaN,
       Start_Time = dict_get task_data ''Start Time'' NaN,
       End_Time = dict_get task_data ''End Time'' NaN,
       Work_Time_Mins = dict_get task_data ''Work Time (Mins)'' (Num 0),
       Description = dict_get task_data ''Description'' (Str '''') \<rparr>"

text \<open>The loop of lines 128 to 151 for one row: \<^verbatim>\<open>continue\<close> or append.\<close>

fun flatten_tasks :: "cell \<Rightarrow> cell \<Rightarrow> (string \<times> task_data) list \<Rightarrow> cell entry list" where
  "flatten_tasks emp_name location [] = []"
| "flatten_tasks emp_name location ((date_str, task_data) # rest) =
     (if skip_task task_data then flatten_tasks emp_name location rest
      else make_entry emp_name location date_str task_data
             # flatten_tasks emp_name location rest)"

text \<open>What one row of \<^verbatim>\<open>data\<close> appends to \<^verbatim>\<open>processed_rows\<close> (lines 107 to 151).\<close>

definition row_entries ::
  "(nat \<times> string \<times> string) list \<Rightarrow> cell \<times> cell \<times> row \<Rightarrow> cell entry list" where
  "row_entries cm rw =
     (case rw of (emp_name, location, r) \<Rightarrow>
        flatten_tasks emp_name location (group_cells r cm []))"

definition processed_rows :: "frame \<Rightarrow> cell entry list" where
  "processed_rows df_raw = concat (map (row_entries (col_map df_raw)) (data_rows df_raw))"

section \<open>Post-processing\<close>

subsection \<open>Exceptions and messages\<close>

text \<open>
  The exceptions the modelled code can raise, and the second component of the pair that
  \<^verbatim>\<open>load_and_clean_data\<close> returns: one of its three message texts with the cause it
  carries, or \<open>None\<close>.
\<close>

datatype exn = KeyError nat | IndexError | ValueError

datatype message = Error_loading_CSV string | No_data_found | Error_processing_data exn

subsection \<open>Work time\<close>

text \<open>
  A Python float is a binary64 number: \<open>Value q\<close> for a rational \<open>q\<close> that binary64
  holds (\<open>Value 0\<close> is \<^verbatim>\<open>0.0\<close>), \<open>NegZero\<close> for \<^verbatim>\<open>-0.0\<close>, the two infinities and
  NaN.
\<close>

datatype number = Value rat | NegZero | PosInf | NegInf | NotANumber

definition is_digit :: "char \<Rightarrow> bool" where
  "is_digit c = (48 \<le> (of_char c :: nat) \<and> (of_char c :: nat) \<le> 57)"

definition digit_val :: "char \<Rightarrow> nat" where
  "digit_val c = of_char c - 48"

definition nat_of_digits :: "string \<Rightarrow> nat" where
  "nat_of_digits ds = foldl (\<lambda>a c. 10 * a + digit_val c) 0 ds"

definition int_of_digits :: "string \<Rightarrow> int" where
  "int_of_digits ds = foldl (\<lambda>a c. 10 * a + int (digit_val c)) 0 ds"

text \<open>
  Rounding to binary64, to nearest with ties to even, as the conversion of CPython
  (\<^verbatim>\<open>_Py_dg_strtod\<close>) does it. For \<open>v > 0\<close>, \<open>binade v\<close> is the \<open>e\<close> with
  \<open>2 ^ e \<le> v < 2 ^ (e + 1)\<close>, found from the bit lengths of numerator and denominator.
  The spacing of binary64 there is \<open>2 ^ (e - 52)\<close>, and \<open>2 ^ (- 1074)\<close> below the
  smallest normal number \<open>2 ^ (- 1022)\<close>; \<open>v\<close> is rounded to a multiple of it. A result
  that reaches \<open>2 ^ 1024\<close> is an infinity (\<^verbatim>\<open>float\<close> raises nothing on overflow), a
  result 0 keeps the sign of the text.
\<close>

function floor_log2 :: "int \<Rightarrow> int" where
  "floor_log2 n = (if n < 2 then 0 else 1 + floor_log2 (n div 2))"
  by pat_completeness auto
termination
  by (relation "measure nat") auto

declare floor_log2.simps [simp del]

definition pow2 :: "int \<Rightarrow> rat" where
  "pow2 e = (if 0 \<le> e then of_int (2 ^ nat e) else 1 / of_int (2 ^ nat (- e)))"

definition binade :: "rat \<Rightarrow> int" where
  "binade v =
     (case quotient_of v of (a, b) \<Rightarrow>
        (let e0 = floor_log2 a - floor_log2 b
         in if pow2 e0 \<le> v then e0 else e0 - 1))"

definition round_half_even :: "rat \<Rightarrow> int" where
  "round_half_even q =
     (let k = \<lfloor>q\<rfloor>; f = q - of_int k
      in if f < 1 / 2 then k else if 1 / 2 < f then k + 1
         else if even k then k else k + 1)"

definition round_binary64 :: "rat \<Rightarrow> rat" where
  "round_binary64 v =
     (let e = max (binade v) (- 1022); ulp = pow2 (e - 52)
      in of_int (round_half_even (v / ulp)) * ulp)"

definition to_binary64 :: "bool \<Rightarrow> rat \<Rightarrow> number" where
  "to_binary64 neg v =
     (let r = (if v = 0 then 0 else round_binary64 v)
      in if 2 ^ 1024 \<le> \<lfloor>r\<rfloor> then (if neg then NegInf else PosInf)
         else if r = 0 then (if neg then NegZero else Value 0)
         else Value (if neg then - r else r))"

text \<open>
  \<^verbatim>\<open>float(s)\<close> on a string, as CPython does it. First every code point from 127 on
  becomes a space if it is white space and a question mark otherwise. Then underscores
  are removed: each must stand between two digits. Then the white space of C (9 to 13
  and 32) is stripped at both ends, and what is left must be, from its first to its last
  character, a signed \<^verbatim>\<open>inf\<close>, \<^verbatim>\<open>infinity\<close> or \<^verbatim>\<open>nan\<close> in any letter case, or
  a signed decimal number: digits with an optional point, at least one digit, and an
  optional exponent. \<open>parse_decimal\<close> gives the exact value of the unsigned decimal
  number, which is then rounded to binary64. \<open>Inl ValueError\<close> is the exception that
  \<^verbatim>\<open>float\<close> raises.
\<close>

definition to_ascii :: "string \<Rightarrow> string" where
  "to_ascii s =
     map (\<lambda>c. if (of_char c :: nat) < 127 then c
              else if py_isspace c then CHR '' '' else CHR ''?'') s"

fun drop_underscores :: "char \<Rightarrow> string \<Rightarrow> string option" where
  "drop_underscores prev [] = (if prev = CHR ''_'' then None else Some [])"
| "drop_underscores prev (c # cs) =
     (if c = CHR ''_'' then (if is_digit prev then drop_underscores c cs else None)
      else if prev = CHR ''_'' \<and> \<not> is_digit c then None
      else map_option ((#) c) (drop_underscores c cs))"

definition c_isspace :: "char \<Rightarrow> bool" where
  "c_isspace c = (of_char c \<in> {9::nat, 10, 11, 12, 13, 32})"

definition take_sign :: "string \<Rightarrow> bool \<times> string" where
  "take_sign s =
     (case s of [] \<Rightarrow> (False, [])
      | c # cs \<Rightarrow> if c = CHR ''-'' then (True, cs)
                 else if c = CHR ''+'' then (False, cs) else (False, s))"

definition scale10 :: "int \<Rightarrow> bool \<Rightarrow> nat \<Rightarrow> nat \<Rightarrow> rat" where
  "scale10 m neg_exp e k =
     (if neg_exp then of_int m / of_int (10 ^ e) / of_int (10 ^ k)
      else of_int m * of_int (10 ^ e) / of_int (10 ^ k))"

definition parse_decimal :: "string \<Rightarrow> rat option" where
  "parse_decimal p =
     (let ip = takeWhile is_digit p;
          r1 = dropWhile is_digit p;
          has_point = (r1 \<noteq> [] \<and> hd r1 = CHR ''.'');
          fp = (if has_point then takeWhile is_digit (tl r1) else []);
          r2 = (if has_point then dropWhile is_digit (tl r1) else r1);
          m = int_of_digits (ip @ fp)
      in if ip @ fp = [] then None
         else if r2 = [] then Some (scale10 m False 0 (length fp))
         else if hd r2 = CHR ''e'' \<or> hd r2 = CHR ''E'' then
           (case take_sign (tl r2) of (neg_exp, ds) \<Rightarrow>
              if ds \<noteq> [] \<and> list_all is_digit ds
              then Some (scale10 m neg_exp (nat_of_digits ds) (length fp))
              else None)
         else None)"

definition py_float :: "string \<Rightarrow> exn + number" where
  "py_float s =
     (case drop_underscores (CHR 0x00) (to_ascii s) of
        None \<Rightarrow> Inl ValueError
      | Some t \<Rightarrow>
          (let u = rev (dropWhile c_isspace (rev (dropWhile c_isspace t)))
           in case take_sign u of (neg, body) \<Rightarrow>
                if py_lower body = ''inf'' \<or> py_lower body = ''infinity''
                  then Inr (if neg then NegInf else PosInf)
                else if py_lower body = ''nan'' then Inr NotANumber
                else (case parse_decimal body of
                        None \<Rightarrow> Inl ValueError
                      | Some v \<Rightarrow> Inr (to_binary64 neg v))))"

text \<open>
  \<^verbatim>\<open>clean_minutes\<close> (lines 176 to 182): the body of its \<^verbatim>\<open>try\<close>, and the function
  with the bare \<^verbatim>\<open>except\<close> that returns 0. \<^verbatim>\<open>pd.isna\<close> holds of NaN alone.
\<close>

definition clean_minutes_try :: "cell \<Rightarrow> exn + number" where
  "clean_minutes_try x =
     (if x = NaN \<or> py_strip (py_str x) = [] then Inr (Value 0)
      else py_float (filter (\<lambda>c. c \<noteq> CHR '','') (py_str x)))"

definition clean_minutes :: "cell \<Rightarrow> number" where
  "clean_minutes x = (case clean_minutes_try x of Inl e \<Rightarrow> Value 0 | Inr v \<Rightarrow> v)"

subsection \<open>Dates\<close>

text \<open>
  \<^verbatim>\<open>re.sub(r'(\d+)(st|nd|rd|th)', r'\1', s)\<close>. \<open>ordinal_match\<close> is a match of the
  pattern at the head of the text: the longest run of digits, not empty, and one of
  the four suffixes right after it (a shorter run of digits is followed by a digit, so
  backtracking finds nothing more). \<open>strip_ordinals\<close> replaces every match, left to
  right, by its digits.
\<close>

definition ordinal_match :: "string \<Rightarrow> (string \<times> string) option" where
  "ordinal_match s =
     (let ds = takeWhile is_digit s; r = dropWhile is_digit s
      in if ds \<noteq> [] \<and> take 2 r \<in> set [''st'', ''nd'', ''rd'', ''th'']
         then Some (ds, drop 2 r) else None)"

function strip_ordinals :: "string \<Rightarrow> string" where
  "strip_ordinals [] = []"
| "strip_ordinals (c # cs) =
     (case ordinal_match (c # cs) of
        Some (ds, rest) \<Rightarrow> ds @ strip_ordinals rest
      | None \<Rightarrow> c # strip_ordinals cs)"
  by pat_completeness auto
termination
proof (relation "measure length")
  show "wf (measure length)"
    by simp
next
  fix c :: char and cs :: string and x2 ds rest
  assume "ordinal_match (c # cs) = Some x2" and "(ds, rest) = x2"
  then have m: "ordinal_match (c # cs) = Some (ds, rest)"
    by simp
  let ?s = "c # cs"
  from m have ne: "takeWhile is_digit ?s \<noteq> []"
    and rest: "rest = drop 2 (dropWhile is_digit ?s)"
    by (auto simp: ordinal_match_def Let_def split: if_splits)
  have "length (takeWhile is_digit ?s) + length (dropWhile is_digit ?s) = length ?s"
    by (metis length_append takeWhile_dropWhile_id)
  moreover from ne have "0 < length (takeWhile is_digit ?s)"
    by simp
  ultimately have "length (dropWhile is_digit ?s) < length ?s"
    by linarith
  then show "(rest, c # cs) \<in> measure length"
    using rest by simp
next
  fix c :: char and cs :: string
  show "(cs, c # cs) \<in> measure length"
    by simp
qed

text \<open>
  \<^verbatim>\<open>datetime.strptime(s, "%a, %b %d, %y")\<close> in the C locale. The format becomes a
  regular expression matched without regard to letter case from the head of the text:
  a weekday abbreviation, a comma, white space (each blank of the format is \<^verbatim>\<open>\s+\<close>),
  a month abbreviation, white space, the day
  \<^verbatim>\<open>3[0-1]|[1-2]\d|0[1-9]|[1-9]| [1-9]\<close>, a comma, white space and two digits of year;
  text left over after the match is an error. The names start with a letter and the day
  with a digit, so \<^verbatim>\<open>\s+\<close> takes all the white space there is; the comma after the day
  fixes which alternative of the day can match. The weekday is not checked against the
  date. A year up to 68 is in the century 2000, from 69 on in 1900, and the day must
  exist in the month.
\<close>

type_synonym date = "nat \<times> nat \<times> nat"

definition weekday_names :: "string list" where
  "weekday_names = [''mon'', ''tue'', ''wed'', ''thu'', ''fri'', ''sat'', ''sun'']"

definition month_names :: "string list" where
  "month_names = [''jan'', ''feb'', ''mar'', ''apr'', ''may'', ''jun'',
                  ''jul'', ''aug'', ''sep'', ''oct'', ''nov'', ''dec'']"

fun month_number :: "string \<Rightarrow> string list \<Rightarrow> nat \<Rightarrow> nat option" where
  "month_number name [] i = None"
| "month_number name (m # ms) i = (if name = m then Some i else month_number name ms (Suc i))"

definition skip_spaces :: "string \<Rightarrow> string option" where
  "skip_spaces s =
     (case s of [] \<Rightarrow> None
      | c # cs \<Rightarrow> if py_isspace c then Some (dropWhile py_isspace cs) else None)"

definition parse_day :: "string \<Rightarrow> (nat \<times> string) option" where
  "parse_day s =
     (case s of
        [] \<Rightarrow> None
      | c1 # r1 \<Rightarrow>
          (let one = (if is_digit c1 \<and> c1 \<noteq> CHR ''0'' then Some (digit_val c1, r1) else None)
           in case r1 of
                [] \<Rightarrow> one
              | c2 # r2 \<Rightarrow>
                  if (c1 = CHR ''3'' \<and> (c2 = CHR ''0'' \<or> c2 = CHR ''1''))
                     \<or> ((c1 = CHR ''1'' \<or> c1 = CHR ''2'') \<and> is_digit c2)
                     \<or> (c1 = CHR ''0'' \<and> is_digit c2 \<and> c2 \<noteq> CHR ''0'')
                  then Some (10 * digit_val c1 + digit_val c2, r2)
                  else one))"

definition isleap :: "nat \<Rightarrow> bool" where
  "isleap y = (y mod 4 = 0 \<and> (y mod 100 \<noteq> 0 \<or> y mod 400 = 0))"

definition days_in_month :: "nat \<Rightarrow> nat \<Rightarrow> nat" where
  "days_in_month y m =
     (if m = 2 then (if isleap y then 29 else 28)
      else if m \<in> {4, 6, 9, 11} then 30 else 31)"

definition expect_comma :: "string \<Rightarrow> string option" where
  "expect_comma s = (case s of [] \<Rightarrow> None | c # cs \<Rightarrow> if c = CHR '','' then Some cs else None)"

definition match_format :: "string \<Rightarrow> (nat \<times> nat \<times> nat) option" where
  "match_format s =
     (if py_lower (take 3 s) \<in> set weekday_names then
        do {
          r1 \<leftarrow> expect_comma (drop 3 s);
          r2 \<leftarrow> skip_spaces r1;
          month \<leftarrow> month_number (py_lower (take 3 r2)) month_names 1;
          r3 \<leftarrow> skip_spaces (drop 3 r2);
          (day, r4) \<leftarrow> parse_day r3;
          r5 \<leftarrow> expect_comma r4;
          r6 \<leftarrow> skip_spaces r5;
          (if length r6 = 2 \<and> list_all is_digit r6
           then Some (nat_of_digits r6, month, day) else None)
        }
      else None)"

definition strptime :: "string \<Rightarrow> exn + date" where
  "strptime s =
     (case match_format s of
        None \<Rightarrow> Inl ValueError
      | Some (yy, month, day) \<Rightarrow>
          (let year = (if yy \<le> 68 then 2000 + yy else 1900 + yy)
           in if day \<le> days_in_month year month then Inr (year, month, day)
              else Inl ValueError))"

text \<open>
  \<^verbatim>\<open>parse_custom_date\<close> (lines 162 to 168); \<open>None\<close> is \<^verbatim>\<open>pd.NaT\<close>, returned by the
  bare \<^verbatim>\<open>except\<close>. The labels of the \<^verbatim>\<open>Date\<close> column are strings.
\<close>

definition parse_custom_date :: "string \<Rightarrow> date option" where
  "parse_custom_date d_str =
     (case strptime (strip_ordinals d_str) of Inl e \<Rightarrow> None | Inr d \<Rightarrow> Some d)"

subsection \<open>Billing\<close>

definition billable_keywords :: "string list" where
  "billable_keywords = [''Training'', ''Assessment'', ''Content'', ''Development'']"

definition check_billable :: "cell \<Rightarrow> bool" where
  "check_billable cat =
     (let cat_str = py_lower (py_str cat)
      in list_ex (\<lambda>k. py_in (py_lower k) cat_str) billable_keywords)"

section \<open>The whole load\<close>

text \<open>
  A row of the returned frame: the entry with its work time coerced, and the parsed date
  and the billing flag added. The columns \<^verbatim>\<open>Month\<close>, \<^verbatim>\<open>Week\<close> and \<^verbatim>\<open>DayOfWeek\<close>,
  which pandas derives from \<^verbatim>\<open>Date_Obj\<close>, are left out.
\<close>

record task_record = "number entry" +
  Date_Obj :: "date option"
  Is_Billable :: bool

definition post_process :: "cell entry \<Rightarrow> task_record" where
  "post_process e =
     \<lparr> Employee_Name = Employee_Name e,
       Location = Location e,
       Date = Date e,
       Attendance = Attendance e,
       Activity_Category = Activity_Category e,
       Task_Priority = Task_Priority e,
       Start_Time = Start_Time e,
       End_Time = End_Time e,
       Work_Time_Mins = clean_minutes (Work_Time_Mins e),
       Description = Description e,
       Date_Obj = parse_custom_date (Date e),
       Is_Billable = check_billable (Activity_Category e) \<rparr>"

text \<open>
  The body of the second \<^verbatim>\<open>try\<close> (lines 33 to 201). \<^verbatim>\<open>data[1]\<close> and
  \<^verbatim>\<open>data[2]\<close> raise KeyError on a frame without that column, \<^verbatim>\<open>df_raw.iloc[1]\<close> and
  \<^verbatim>\<open>df_raw.iloc[2]\<close> raise IndexError on a frame without that row; nothing else in the
  body raises on the cells modelled here (the date and work time functions catch their
  own exceptions, and the calendar columns of pandas accept null dates).
\<close>

definition process :: "frame \<Rightarrow> exn + (task_record list \<times> message option)" where
  "process df_raw =
     (if total_cols df_raw < 2 then Inl (KeyError 1)
      else if total_cols df_raw < 3 then Inl (KeyError 2)
      else if length df_raw < 3 then Inl IndexError
      else let df = processed_rows df_raw
           in if df = [] then Inr ([], Some No_data_found)
              else Inr (map post_process df, None))"

text \<open>
  \<^verbatim>\<open>load_and_clean_data\<close>. Its argument is what \<^verbatim>\<open>pd.read_csv\<close> did with the file:
  \<open>Inl cause\<close> when it raised (the text of the exception), \<open>Inr df_raw\<close> when it
  returned a frame.
\<close>

definition load_and_clean_data :: "string + frame \<Rightarrow> task_record list \<times> message option" where
  "load_and_clean_data src =
     (case src of
        Inl cause \<Rightarrow> ([], Some (Error_loading_CSV cause))
      | Inr df_raw \<Rightarrow>
          (case process df_raw of
             Inl e \<Rightarrow> ([], Some (Error_processing_data e))
           | Inr res \<Rightarrow> res))"

section \<open>Sample frames\<close>

text \<open>Small frames on which the properties below are evaluated.\<close>

definition three_row_frame :: frame where
  "three_row_frame =
     [ [NaN, NaN, NaN],
       [NaN, NaN, NaN],
       [Str ''Sl. No.'', Str ''Employee Name'', Str ''Location''] ]"

definition unparsed_date_frame :: frame where
  "unparsed_date_frame =
     [ replicate 10 NaN,
       [NaN, NaN, NaN, NaN, NaN, NaN, NaN, Str ''Nov 1st, 25'', NaN, NaN],
       [Str ''Sl. No.'', Str ''Employee Name'', Str ''Location'', Str ''P'', Str ''L'',
        Str ''A'', Str ''WO/H'', Str ''Activity Category'', Str ''Work Time (Mins)'',
        Str ''Description''],
       [Str ''1'', Str ''Asha'', Str ''Pune'', NaN, NaN, NaN, NaN, Str ''Training'',
        Str ''90'', Str ''Batch A''] ]"

definition continuation_frame :: frame where
  "continuation_frame =
     [ replicate 10 NaN,
       [NaN, NaN, NaN, NaN, NaN, NaN, NaN, Str ''Sat, Nov 01, 25'', NaN, NaN],
       [Str ''Sl. No.'', Str ''Employee Name'', Str ''Location'', Str ''P'', Str ''L'',
        Str ''A'', Str ''WO/H'', Str ''Activity Category'', Str ''Work Time (Mins)'',
        Str ''Description''],
       [NaN, Str ''  '', NaN, NaN, NaN, NaN, NaN, Str ''Orphan'', NaN, NaN],
       [Str ''1'', Str ''Asha'', NaN, NaN, NaN, NaN, NaN, Str ''Training'', Str ''90'',
        Str ''Batch A''],
       [NaN, NaN, Str '' '', NaN, NaN, NaN, NaN, Str ''Travel'', Str ''30'', NaN] ]"

definition duplicate_start_frame :: frame where
  "duplicate_start_frame =
     [ replicate 11 NaN,
       [NaN, NaN, NaN, NaN, NaN, NaN, NaN, Str ''Sat, Nov 01, 25'', NaN, NaN, NaN],
       [Str ''Sl. No.'', Str ''Employee Name'', Str ''Location'', Str ''P'', Str ''L'',
        Str ''A'', Str ''WO/H'', Str ''Activity Category'', Str ''Start'', Str ''Start Time'',
        Str ''Description''],
       [Str ''1'', Str ''Asha'', Str ''Pune'', NaN, NaN, NaN, NaN, Str ''Training'',
        Str ''09:00'', Str ''10:30'', Str ''Batch A''] ]"

definition nan_text_frame :: frame where
  "nan_text_frame =
     [ replicate 10 NaN,
       [NaN, NaN, NaN, NaN, NaN, NaN, NaN, Str ''Sat, Nov 01, 25'', NaN, NaN],
       [Str ''Sl. No.'', Str ''Employee Name'', Str ''Location'', Str ''P'', Str ''L'',
        Str ''A'', Str ''WO/H'', Str ''Activity Category'', Str ''Work Time (Mins)'',
        Str ''Description''],
       [Str ''1'', Str ''Asha'', Str ''Pune'', NaN, NaN, NaN, NaN, NaN, Str ''30'',
        Str ''NAN''] ]"

definition nan_label_frame :: frame where
  "nan_label_frame =
     [ replicate 8 NaN,
       [NaN, NaN, NaN, NaN, NaN, NaN, NaN, Str ''NAN''],
       [Str ''Sl. No.'', Str ''Employee Name'', Str ''Location'', Str ''P'', Str ''L'',
        Str ''A'', Str ''WO/H'', Str ''Attendance''] ]"

definition early_label_frame :: frame where
  "early_label_frame =
     [ replicate 8 NaN,
       [Str ''Sat, Nov 01, 25'', NaN, NaN, NaN, NaN, NaN, NaN, NaN],
       [Str ''Sl. No.'', Str ''Employee Name'', Str ''Location'', Str ''P'', Str ''L'',
        Str ''A'', Str ''WO/H'', Str ''Attendance''] ]"

section \<open>Properties\<close>

subsection \<open>Text\<close>

lemma py_in_sublist: "py_in sub s \<longleftrightarrow> sublist sub s"
  by (induction s) (auto simp: sublist_Cons_right)

lemma py_strip_empty_iff: "py_strip s = [] \<longleftrightarrow> list_all py_isspace s"
proof
  assume "list_all py_isspace s"
  then have "dropWhile py_isspace s = []"
    by (metis dropWhile_eq_Nil_conv list_all_iff)
  then have "py_strip s = rev (dropWhile py_isspace (rev []))"
    unfolding py_strip_def by (simp only:)
  then show "py_strip s = []"
    by simp
next
  assume e: "py_strip s = []"
  show "list_all py_isspace s"
  proof (rule ccontr)
    assume "\<not> list_all py_isspace s"
    then have ne: "dropWhile py_isspace s \<noteq> []"
      by (metis dropWhile_eq_Nil_conv list_all_iff)
    then have "\<not> py_isspace (hd (dropWhile py_isspace s))"
      by (rule hd_dropWhile)
    moreover from ne have "hd (dropWhile py_isspace s) \<in> set (rev (dropWhile py_isspace s))"
      by simp
    ultimately have "dropWhile py_isspace (rev (dropWhile py_isspace s)) \<noteq> []"
      by (metis dropWhile_eq_Nil_conv)
    with e show False
      by (simp add: py_strip_def)
  qed
qed

subsection \<open>Billing classifier\<close>

text \<open>
  Claim C7. The billing flag is a function of the Activity Category alone: it holds
  exactly when the lower-cased text of the category contains one of \<^verbatim>\<open>training\<close>,
  \<^verbatim>\<open>assessment\<close>, \<^verbatim>\<open>content\<close>, \<^verbatim>\<open>development\<close> as a contiguous run, and the flag
  of a returned record is that function of the record's category. "Online Training
  Session" and "Content Development" are billable, "Travel" and "Admin Sync-up" are not.
\<close>

theorem check_billable_keywords:
  "(check_billable cat \<longleftrightarrow>
      sublist ''training'' (py_lower (py_str cat)) \<or>
      sublist ''assessment'' (py_lower (py_str cat)) \<or>
      sublist ''content'' (py_lower (py_str cat)) \<or>
      sublist ''development'' (py_lower (py_str cat)))
   \<and> Is_Billable (post_process e) = check_billable (Activity_Category e)
   \<and> check_billable (Str ''Online Training Session'') = True
   \<and> check_billable (Str ''Travel'') = False
   \<and> check_billable (Str ''Content Development'') = True
   \<and> check_billable (Str ''Admin Sync-up'') = False"
proof -
  have kw: "map py_lower billable_keywords
              = [''training'', ''assessment'', ''content'', ''development'']"
    by code_simp
  have "check_billable cat \<longleftrightarrow>
          list_ex (\<lambda>k. sublist k (py_lower (py_str cat))) (map py_lower billable_keywords)"
    by (simp add: check_billable_def Let_def list_ex_iff py_in_sublist)
  then have general: "check_billable cat \<longleftrightarrow>
      sublist ''training'' (py_lower (py_str cat)) \<or>
      sublist ''assessment'' (py_lower (py_str cat)) \<or>
      sublist ''content'' (py_lower (py_str cat)) \<or>
      sublist ''development'' (py_lower (py_str cat))"
    unfolding kw by simp
  have flag: "Is_Billable (post_process e) = check_billable (Activity_Category e)"
    by (simp add: post_process_def)
  have e1: "check_billable (Str ''Online Training Session'') = True"
    by code_simp
  have e2: "check_billable (Str ''Travel'') = False"
    by code_simp
  have e3: "check_billable (Str ''Content Development'') = True"
    by code_simp
  have e4: "check_billable (Str ''Admin Sync-up'') = False"
    by code_simp
  from general flag e1 e2 e3 e4 show ?thesis
    by blast
qed

subsection \<open>The call boundary\<close>

lemma data_rows_short: "length g < 4 \<Longrightarrow> data_rows g = []"
  by (simp add: data_rows_def)

lemma processed_rows_short: "length g < 4 \<Longrightarrow> processed_rows g = []"
  by (simp add: processed_rows_def data_rows_short)

lemma process_ok:
  "3 \<le> total_cols g \<Longrightarrow> 3 \<le> length g \<Longrightarrow>
     process g = Inr (map post_process (processed_rows g),
                      if processed_rows g = [] then Some No_data_found else None)"
  by (simp add: process_def Let_def)

lemma process_fails:
  "(\<exists>e. process g = Inl e) \<longleftrightarrow> total_cols g < 3 \<or> length g < 3"
  by (auto simp: process_def Let_def)

lemma load_ok:
  assumes "3 \<le> total_cols g" "3 \<le> length g"
  shows "load_and_clean_data (Inr g)
           = (map post_process (processed_rows g),
              if processed_rows g = [] then Some No_data_found else None)"
  using assms by (simp add: load_and_clean_data_def process_def Let_def)

text \<open>
  Claim C9. A frame with fewer than four rows has no data row: the load returns no
  record and a message, whichever way it ends (the message of an exception when a
  header row or an identity column is missing, "No data found." otherwise).
\<close>

theorem short_grid_empty_with_message:
  assumes "length g < 4"
  shows "\<exists>m. load_and_clean_data (Inr g) = ([], Some m)"
  using assms processed_rows_short [of g]
  by (auto simp: load_and_clean_data_def process_def Let_def)

theorem short_grid_empty_with_message_witness:
  "length three_row_frame < 4
   \<and> load_and_clean_data (Inr three_row_frame) = ([], Some No_data_found)
   \<and> load_and_clean_data (Inr [[NaN, NaN, NaN]]) = ([], Some (Error_processing_data IndexError))"
proof -
  have len: "length three_row_frame < 4"
    by (simp add: three_row_frame_def)
  have a: "load_and_clean_data (Inr three_row_frame) = ([], Some No_data_found)"
    by code_simp
  have b: "load_and_clean_data (Inr [[NaN, NaN, NaN]]) = ([], Some (Error_processing_data IndexError))"
    by code_simp
  from short_grid_empty_with_message [OF len] len a b show ?thesis
    by simp
qed

text \<open>
  Claim C2. The load always returns a pair. When \<^verbatim>\<open>read_csv\<close> failed, the pair is no
  record and the loading message with the cause; when the processing raises, which it
  does exactly on a frame with fewer than three columns or fewer than three rows, the
  pair is no record and the processing message with the exception. A pair without a
  message is the only one that holds records.
\<close>

theorem load_never_raises:
  "load_and_clean_data (Inl cause) = ([], Some (Error_loading_CSV cause))
   \<and> (process df_raw = Inl e \<longrightarrow>
        load_and_clean_data (Inr df_raw) = ([], Some (Error_processing_data e)))
   \<and> ((\<exists>e. process df_raw = Inl e) \<longleftrightarrow> total_cols df_raw < 3 \<or> length df_raw < 3)
   \<and> (snd (load_and_clean_data src) = None \<longleftrightarrow> fst (load_and_clean_data src) \<noteq> [])"
proof -
  have a: "load_and_clean_data (Inl cause) = ([], Some (Error_loading_CSV cause))"
    by (simp add: load_and_clean_data_def)
  have b: "process df_raw = Inl e \<longrightarrow>
        load_and_clean_data (Inr df_raw) = ([], Some (Error_processing_data e))"
    by (simp add: load_and_clean_data_def)
  have d: "snd (load_and_clean_data src) = None \<longleftrightarrow> fst (load_and_clean_data src) \<noteq> []"
    by (cases src) (auto simp: load_and_clean_data_def process_def Let_def)
  from a b process_fails [of df_raw] d show ?thesis
    by blast
qed

theorem load_never_raises_witness:
  "process [[NaN, NaN]] = Inl (KeyError 2)
   \<and> load_and_clean_data (Inr [[NaN, NaN]]) = ([], Some (Error_processing_data (KeyError 2)))
   \<and> load_and_clean_data (Inl ''No columns to parse from file'')
        = ([], Some (Error_loading_CSV ''No columns to parse from file''))"
proof -
  have h: "process [[NaN, NaN]] = Inl (KeyError 2)"
    by (simp add: process_def total_cols_def)
  from load_never_raises [where df_raw = "[[NaN, NaN]]" and e = "KeyError 2"
      and cause = "''No columns to parse from file''"] h
  show ?thesis
    by blast
qed

subsection \<open>Work time coercion\<close>

text \<open>
  The decimal text of an integer reads back as that integer, and binary64 holds every
  integer up to \<open>2 ^ 53\<close> in magnitude.
\<close>

lemma digit_char: "k < 10 \<Longrightarrow> is_digit (char_of (48 + k)) \<and> digit_val (char_of (48 + k)) = k"
  by (simp add: is_digit_def digit_val_def)

lemma digits_of_digits: "digits_of n \<noteq> [] \<and> list_all is_digit (digits_of n)"
proof (induction n rule: digits_of.induct)
  case (1 n)
  show ?case
  proof (cases "n < 10")
    case True
    then have "nat n < 10" by simp
    then show ?thesis
      using True digit_char [of "nat n"]
      by (subst digits_of.simps, subst digits_of.simps) simp
  next
    case False
    with 1 have "list_all is_digit (digits_of (n div 10))"
      by simp
    moreover have "is_digit (char_of (48 + nat (n mod 10)))"
      using digit_char [of "nat (n mod 10)"] by simp
    ultimately show ?thesis
      using False by (subst digits_of.simps, subst digits_of.simps) simp
  qed
qed

lemma int_of_digits_snoc:
  "int_of_digits (ds @ [c]) = 10 * int_of_digits ds + int (digit_val c)"
  by (simp add: int_of_digits_def)

lemma int_of_digits_of: "0 \<le> n \<Longrightarrow> int_of_digits (digits_of n) = n"
proof (induction n rule: digits_of.induct)
  case (1 n)
  show ?case
  proof (cases "n < 10")
    case True
    with "1.prems" have "nat n < 10" by simp
    then show ?thesis
      using True "1.prems" digit_char [of "nat n"]
      by (subst digits_of.simps) (simp add: int_of_digits_def)
  next
    case False
    with 1 have "int_of_digits (digits_of (n div 10)) = n div 10"
      by simp
    moreover have "int (digit_val (char_of (48 + nat (n mod 10)))) = n mod 10"
      using digit_char [of "nat (n mod 10)"] by simp
    ultimately show ?thesis
      using False by (subst digits_of.simps) (simp add: int_of_digits_snoc)
  qed
qed

lemma floor_log2_bounds:
  "1 \<le> n \<Longrightarrow> 0 \<le> floor_log2 n \<and> 2 ^ nat (floor_log2 n) \<le> n
     \<and> n < 2 ^ nat (floor_log2 n + 1)"
proof (induction n rule: floor_log2.induct)
  case (1 n)
  show ?case
  proof (cases "n < 2")
    case True
    with "1.prems" have "n = 1" by simp
    then show ?thesis
      by (subst floor_log2.simps, subst floor_log2.simps, subst floor_log2.simps) simp
  next
    case False
    then have "1 \<le> n div 2" by simp
    with 1 False have ih: "0 \<le> floor_log2 (n div 2)"
      "2 ^ nat (floor_log2 (n div 2)) \<le> n div 2"
      "n div 2 < 2 ^ nat (floor_log2 (n div 2) + 1)"
      by simp_all
    have eq: "floor_log2 n = 1 + floor_log2 (n div 2)"
      using False by (subst floor_log2.simps) simp
    have n1: "nat (1 + floor_log2 (n div 2)) = Suc (nat (floor_log2 (n div 2)))"
      using ih(1) by simp
    have n2: "nat (floor_log2 (n div 2) + 1) = Suc (nat (floor_log2 (n div 2)))"
      using ih(1) by simp
    have n3: "nat (1 + floor_log2 (n div 2) + 1) = Suc (Suc (nat (floor_log2 (n div 2))))"
      using ih(1) by simp
    from ih(2) have lo: "2 ^ Suc (nat (floor_log2 (n div 2))) \<le> n"
      by simp
    from ih(3) have hi: "n < 2 ^ Suc (Suc (nat (floor_log2 (n div 2))))"
      unfolding n2 by simp
    show ?thesis
      unfolding eq n1 n3 using ih(1) lo hi by simp
  qed
qed

lemma round_half_even_int: "round_half_even (of_int k) = k"
  by (simp add: round_half_even_def)

lemma quotient_of_of_int: "quotient_of (of_int m) = (m, 1)"
  by (metis Rat.of_int_def of_int_rat quotient_of_int)

lemma floor_log2_one: "floor_log2 1 = 0"
  by (subst floor_log2.simps) simp

lemma to_binary64_int:
  assumes "0 < m" "m \<le> 2 ^ 53"
  shows "to_binary64 neg (of_int m) = Value (if neg then - of_int m else of_int m)"
proof -
  let ?L = "floor_log2 m"
  from assms(1) have m1: "1 \<le> m" by simp
  from floor_log2_bounds [OF m1] have L0: "0 \<le> ?L" and lo: "2 ^ nat ?L \<le> m"
    by simp_all
  from lo assms(2) have "(2::int) ^ nat ?L \<le> 2 ^ 53"
    by simp
  then have "nat ?L \<le> 53"
    by (rule power_le_imp_le_exp [rotated]) simp
  with L0 have L53: "?L \<le> 53"
    by simp
  have "pow2 ?L \<le> of_int m"
    using L0 lo by (simp add: pow2_def)
  then have bin: "binade (of_int m) = ?L"
    by (simp add: binade_def quotient_of_of_int floor_log2_one Let_def)
  have "\<exists>k. of_int m / pow2 (?L - 52) = of_int k"
  proof (cases "?L \<le> 52")
    case True
    then have "pow2 (?L - 52) = 1 / of_int (2 ^ nat (52 - ?L))"
      by (cases "?L = 52") (simp_all add: pow2_def)
    then have "of_int m / pow2 (?L - 52) = of_int (m * 2 ^ nat (52 - ?L))"
      by simp
    then show ?thesis ..
  next
    case False
    with L53 have L: "?L = 53" by simp
    with lo assms(2) have "m = 2 ^ 53" by simp
    then have "of_int m / pow2 (?L - 52) = of_int (2 ^ 52)"
      unfolding L by (simp add: pow2_def)
    then show ?thesis ..
  qed
  then obtain k where k: "of_int m / pow2 (?L - 52) = of_int k"
    by blast
  have ulp: "pow2 (?L - 52) \<noteq> 0"
    by (simp add: pow2_def)
  have "round_binary64 (of_int m) = of_int k * pow2 (?L - 52)"
    using L0 by (simp add: round_binary64_def bin Let_def k round_half_even_int max_def)
  also have "\<dots> = of_int m"
    using k ulp by (simp add: field_simps)
  finally have r: "round_binary64 (of_int m) = of_int m" .
  have big: "\<not> (2::int) ^ 1024 \<le> m"
  proof -
    have "(2::int) ^ 53 < 2 ^ 1024"
      by (rule power_strict_increasing) simp_all
    with assms(2) show ?thesis by linarith
  qed
  show ?thesis
    using assms(1) big by (simp add: to_binary64_def r Let_def)
qed

text \<open>
  \<open>binade\<close> finds the binade of a positive rational, so that a value from \<open>2 ^ 1024\<close> on
  is read as an infinity and a nonzero value below \<open>2 ^ (- 1075)\<close> as a zero with the sign
  of the text.
\<close>

lemma pow2_powi: "pow2 e = 2 powi e"
proof (cases "0 \<le> e")
  case True
  then show ?thesis
    by (simp add: pow2_def power_int_def)
next
  case False
  have "1 / (2::rat) ^ nat (- e) = inverse 2 ^ nat (- e)"
    by (simp add: power_one_over inverse_eq_divide)
  with False show ?thesis
    by (simp add: pow2_def power_int_def)
qed

lemma powi_half: "(2::rat) powi (k - 1) = 2 powi k / 2"
  by (simp add: power_int_diff)

lemma powi_less_cancel:
  assumes "(2::rat) powi m < 2 powi n"
  shows "m < n"
proof (rule ccontr)
  assume "\<not> m < n"
  then have "n \<le> m"
    by simp
  then have "(2::rat) powi n \<le> 2 powi m"
    by (rule power_int_increasing) simp
  with assms show False
    by simp
qed

lemma floor_log2_powi:
  assumes "1 \<le> n"
  shows "(2::rat) powi floor_log2 n \<le> of_int n" "(of_int n :: rat) < 2 powi (floor_log2 n + 1)"
proof -
  from floor_log2_bounds [OF assms] have L0: "0 \<le> floor_log2 n"
    and lo: "2 ^ nat (floor_log2 n) \<le> n" and hi: "n < 2 ^ nat (floor_log2 n + 1)"
    by simp_all
  from lo have "(of_int (2 ^ nat (floor_log2 n)) :: rat) \<le> of_int n"
    by (simp only: of_int_le_iff)
  then show "(2::rat) powi floor_log2 n \<le> of_int n"
    using L0 by (simp add: power_int_def)
  from hi have "(of_int n :: rat) < of_int (2 ^ nat (floor_log2 n + 1))"
    by (simp only: of_int_less_iff)
  then show "(of_int n :: rat) < 2 powi (floor_log2 n + 1)"
    using L0 by (simp add: power_int_def)
qed

lemma binade_bounds:
  assumes "0 < v"
  shows "2 powi binade v \<le> v" "v < 2 powi (binade v + 1)"
proof -
  obtain a b where q: "quotient_of v = (a, b)"
    by (cases "quotient_of v") auto
  then have b0: "0 < b" and v: "v = of_int a / of_int b"
    by (auto simp: quotient_of_denom_pos quotient_of_div)
  from assms v b0 have a0: "0 < a"
    by (simp add: zero_less_divide_iff)
  let ?la = "floor_log2 a" and ?lb = "floor_log2 b"
  let ?e0 = "?la - ?lb"
  from a0 have a1: "1 \<le> a" by simp
  from b0 have b1: "1 \<le> b" by simp
  note A = floor_log2_powi [OF a1] and B = floor_log2_powi [OF b1]
  have bpos: "(0::rat) < of_int b"
    using b0 by simp
  have p0: "\<And>k. (0::rat) < 2 powi k"
    by simp
  have upper0: "v < 2 powi (?e0 + 1)"
  proof -
    have "v < 2 powi (?la + 1) / of_int b"
      unfolding v using A(2) bpos by (simp add: divide_strict_right_mono)
    also have "\<dots> \<le> 2 powi (?la + 1) / 2 powi ?lb"
      using B(1) p0 [of ?lb] p0 [of "?la + 1"] by (simp add: frac_le)
    also have "\<dots> = 2 powi (?la + 1 - ?lb)"
      by (simp add: power_int_diff)
    also have "?la + 1 - ?lb = ?e0 + 1"
      by simp
    finally show ?thesis .
  qed
  have lower1: "2 powi (?e0 - 1) \<le> v"
  proof -
    have "(2::rat) powi (?e0 - 1) = 2 powi (?la - (?lb + 1))"
      by (simp only: diff_diff_eq)
    also have "\<dots> = 2 powi ?la / 2 powi (?lb + 1)"
      by (rule power_int_diff) simp
    finally have "(2::rat) powi (?e0 - 1) = 2 powi ?la / 2 powi (?lb + 1)" .
    also have "\<dots> \<le> 2 powi ?la / of_int b"
      using B(2) bpos p0 [of ?la] by (simp add: frac_le)
    also have "\<dots> \<le> v"
      unfolding v using A(1) bpos by (simp add: divide_right_mono)
    finally show ?thesis .
  qed
  have bin: "binade v = (if 2 powi ?e0 \<le> v then ?e0 else ?e0 - 1)"
    by (simp add: binade_def q Let_def pow2_powi)
  show "2 powi binade v \<le> v"
    unfolding bin using lower1 by simp
  show "v < 2 powi (binade v + 1)"
    unfolding bin using upper0 by (simp add: not_le)
qed

lemma round_half_even_floor: "\<lfloor>q\<rfloor> \<le> round_half_even q"
  by (simp add: round_half_even_def Let_def)

lemma to_binary64_overflow:
  assumes "2 ^ 1024 \<le> v"
  shows "to_binary64 neg v = (if neg then NegInf else PosInf)"
proof -
  have "(0::rat) < 2 ^ 1024"
    by (rule zero_less_power) simp
  from this assms have v0: "0 < v"
    by (rule less_le_trans)
  note B = binade_bounds [OF v0]
  let ?e = "binade v"
  have "(2::rat) powi 1024 \<le> v"
    using assms by (simp add: power_int_def)
  from this B(2) have "(2::rat) powi 1024 < 2 powi (?e + 1)"
    by (rule le_less_trans)
  then have "1024 < ?e + 1"
    by (rule powi_less_cancel)
  then have e: "1024 \<le> ?e"
    by simp
  then have mx: "max ?e (- 1022) = ?e"
    by simp
  let ?ulp = "(2::rat) powi (?e - 52)"
  have ulp0: "0 < ?ulp"
    by simp
  have "(2::rat) powi 52 = 2 powi ?e / ?ulp"
    by (simp add: power_int_diff)
  also have "\<dots> \<le> v / ?ulp"
    using B(1) ulp0 by (simp add: divide_right_mono)
  finally have "(of_int (2 ^ 52) :: rat) \<le> v / ?ulp"
    by (simp add: power_int_def)
  then have "2 ^ 52 \<le> \<lfloor>v / ?ulp\<rfloor>"
    by (simp only: le_floor_iff)
  with round_half_even_floor [of "v / ?ulp"] have m: "2 ^ 52 \<le> round_half_even (v / ?ulp)"
    by linarith
  have r: "round_binary64 v = of_int (round_half_even (v / ?ulp)) * ?ulp"
    by (simp add: round_binary64_def Let_def mx pow2_powi)
  have p52: "(2::rat) powi 52 = of_int (2 ^ 52)"
    by (simp add: power_int_def)
  have "(2::rat) powi ?e = 2 powi (52 + (?e - 52))"
    by simp
  also have "\<dots> = 2 powi 52 * ?ulp"
    by (rule power_int_add) simp
  finally have split: "(2::rat) powi ?e = of_int (2 ^ 52) * ?ulp"
    by (simp only: p52)
  from e have "(2::rat) powi 1024 \<le> 2 powi ?e"
    by (rule power_int_increasing) simp
  also note split
  also have "of_int (2 ^ 52) * ?ulp \<le> of_int (round_half_even (v / ?ulp)) * ?ulp"
    using m ulp0 by (simp only: mult_le_cancel_right_pos of_int_le_iff)
  finally have "(2::rat) powi 1024 \<le> round_binary64 v"
    by (simp only: r)
  moreover have "(2::rat) powi 1024 = of_int (2 ^ 1024)"
    by (simp only: power_int_def of_int_power of_int_numeral) simp
  ultimately have "(of_int (2 ^ 1024) :: rat) \<le> round_binary64 v"
    by (simp only:)
  then have "2 ^ 1024 \<le> \<lfloor>round_binary64 v\<rfloor>"
    by (simp only: le_floor_iff)
  with v0 show ?thesis
    by (simp add: to_binary64_def Let_def)
qed

lemma round_half_even_small:
  assumes "0 \<le> q" "q < 1 / 2"
  shows "round_half_even q = 0"
proof -
  from assms have "\<lfloor>q\<rfloor> = 0"
    by (simp add: floor_eq_iff)
  with assms show ?thesis
    by (simp add: round_half_even_def Let_def)
qed

lemma to_binary64_underflow:
  assumes "0 < v" "v < 2 powi (- 1075)"
  shows "to_binary64 neg v = (if neg then NegZero else Value 0)"
proof -
  note B = binade_bounds [OF assms(1)]
  let ?e = "binade v"
  from B(1) assms(2) have "(2::rat) powi ?e < 2 powi (- 1075)"
    by (rule le_less_trans)
  then have "?e < - 1075"
    by (rule powi_less_cancel)
  then have mx: "max ?e (- 1022) = - 1022"
    by simp
  define ulp :: rat where "ulp = 2 powi (- 1074)"
  have ulp0: "0 < ulp"
    unfolding ulp_def by (rule zero_less_power_int) simp
  have "(- 1074 :: int) - 1 = - 1075"
    by simp
  from powi_half [of "- 1074", unfolded this]
  have half: "(2::rat) powi (- 1075) = ulp / 2"
    by (simp only: ulp_def)
  from assms(2) have "v < ulp / 2"
    by (simp only: half)
  with ulp0 have less: "v / ulp < 1 / 2"
    by (simp add: field_simps)
  have pos: "0 \<le> v / ulp"
    using assms(1) ulp0 by simp
  have "round_half_even (v / ulp) = 0"
    using pos less by (rule round_half_even_small)
  moreover have "round_binary64 v = of_int (round_half_even (v / ulp)) * ulp"
    unfolding ulp_def round_binary64_def Let_def mx pow2_powi by simp
  ultimately have "round_binary64 v = 0"
    by simp
  then show ?thesis
    using assms(1) by (simp add: to_binary64_def Let_def)
qed

text \<open>
  A text of decimal digits, with or without a minus sign before it.
\<close>

lemma is_digit_plain:
  assumes "is_digit c"
  shows "(of_char c :: nat) < 127" "\<not> py_isspace c" "\<not> c_isspace c" "lower_char c = c"
    "c \<noteq> CHR ''_''" "c \<noteq> CHR '',''" "c \<noteq> CHR ''-''" "c \<noteq> CHR ''+''" "c \<noteq> CHR ''.''"
    "c \<noteq> CHR ''e''" "c \<noteq> CHR ''E''"
  using assms by (auto simp: is_digit_def py_isspace_def c_isspace_def lower_char_def Let_def)

lemma drop_underscores_none:
  "CHR ''_'' \<notin> set s \<Longrightarrow> prev \<noteq> CHR ''_'' \<Longrightarrow> drop_underscores prev s = Some s"
  by (induction s arbitrary: prev) auto

lemma strip_both_ends:
  assumes "s \<noteq> []" "\<not> P (hd s)" "\<not> P (last s)"
  shows "rev (dropWhile P (rev (dropWhile P s))) = s"
proof -
  from assms(1,2) have "dropWhile P s = s"
    by (cases s) auto
  moreover from assms(1,3) have "dropWhile P (rev s) = rev s"
    by (cases "rev s") (auto simp: last_rev [symmetric] simp del: last_rev)
  ultimately show ?thesis
    by simp
qed

lemma parse_decimal_digits:
  assumes "ds \<noteq> []" "list_all is_digit ds"
  shows "parse_decimal ds = Some (of_int (int_of_digits ds))"
proof -
  from assms(2) have tw: "takeWhile is_digit ds = ds"
    by (metis list_all_iff takeWhile_eq_all_conv)
  from assms(2) have dw: "dropWhile is_digit ds = []"
    by (metis list_all_iff dropWhile_eq_Nil_conv)
  show ?thesis
    unfolding parse_decimal_def Let_def tw dw using assms(1)
    by (simp add: scale10_def)
qed

lemma py_float_digits:
  assumes "ds \<noteq> []" "list_all is_digit ds"
  shows "py_float ds = Inr (to_binary64 False (of_int (int_of_digits ds)))"
    and "py_float (CHR ''-'' # ds) = Inr (to_binary64 True (of_int (int_of_digits ds)))"
proof -
  from assms(2) have dig: "\<And>c. c \<in> set ds \<Longrightarrow> is_digit c"
    by (simp add: list_all_iff)
  from assms(1) dig have hd: "is_digit (hd ds)" and last: "is_digit (last ds)"
    by simp_all
  have lower: "py_lower ds = ds"
    using dig is_digit_plain(4) by (simp add: py_lower_def map_idI)
  have not_word: "ds \<noteq> ''inf''" "ds \<noteq> ''infinity''" "ds \<noteq> ''nan''"
    using hd by (auto simp: is_digit_def)
  have body: "(if py_lower ds = ''inf'' \<or> py_lower ds = ''infinity''
               then Inr (if neg then NegInf else PosInf)
               else if py_lower ds = ''nan'' then Inr NotANumber
               else (case parse_decimal ds of
                       None \<Rightarrow> Inl ValueError
                     | Some v \<Rightarrow> Inr (to_binary64 neg v)))
              = Inr (to_binary64 neg (of_int (int_of_digits ds)))" for neg
    unfolding lower parse_decimal_digits [OF assms] using not_word by simp
  have ascii: "to_ascii ds = ds"
    using dig is_digit_plain(1) by (simp add: to_ascii_def map_idI)
  have under: "CHR ''_'' \<notin> set ds"
    using dig is_digit_plain(5) by blast
  have du: "drop_underscores (CHR 0x00) ds = Some ds"
    using under by (rule drop_underscores_none) simp
  have sign: "take_sign ds = (False, ds)"
    using assms(1) hd is_digit_plain(7,8) [OF hd] by (cases ds) (auto simp: take_sign_def)
  have strip: "rev (dropWhile c_isspace (rev (dropWhile c_isspace ds))) = ds"
    using assms(1) is_digit_plain(3) [OF hd] is_digit_plain(3) [OF last]
    by (rule strip_both_ends)
  show "py_float ds = Inr (to_binary64 False (of_int (int_of_digits ds)))"
    unfolding py_float_def ascii du option.case Let_def strip sign prod.case body
    by simp
  let ?m = "CHR ''-'' # ds"
  have ascii': "to_ascii ?m = ?m"
    using ascii by (simp add: to_ascii_def)
  have du': "drop_underscores (CHR 0x00) ?m = Some ?m"
    using under by (intro drop_underscores_none) simp_all
  have strip': "rev (dropWhile c_isspace (rev (dropWhile c_isspace ?m))) = ?m"
    using assms(1) is_digit_plain(3) [OF last]
    by (intro strip_both_ends) (simp_all add: c_isspace_def)
  have sign': "take_sign ?m = (True, ds)"
    by (simp add: take_sign_def)
  show "py_float ?m = Inr (to_binary64 True (of_int (int_of_digits ds)))"
    unfolding py_float_def ascii' du' option.case Let_def strip' sign' prod.case body
    by simp
qed

lemma clean_minutes_text_digits:
  assumes "ds \<noteq> []" "list_all is_digit ds"
  shows "py_str x = ds \<Longrightarrow> x \<noteq> NaN
           \<Longrightarrow> clean_minutes x = to_binary64 False (of_int (int_of_digits ds))"
    and "py_str x = CHR ''-'' # ds \<Longrightarrow> x \<noteq> NaN
           \<Longrightarrow> clean_minutes x = to_binary64 True (of_int (int_of_digits ds))"
proof -
  from assms(2) have dig: "\<And>c. c \<in> set ds \<Longrightarrow> is_digit c"
    by (simp add: list_all_iff)
  from assms(1) dig have hd: "is_digit (hd ds)"
    by simp
  have commas: "filter (\<lambda>c. c \<noteq> CHR '','') ds = ds"
    using dig is_digit_plain(6) by (auto simp: filter_id_conv)
  have "\<not> list_all py_isspace ds" "\<not> list_all py_isspace (CHR ''-'' # ds)"
    using assms(1) is_digit_plain(2) [OF hd] by (cases ds; simp)+
  then have nonblank: "py_strip ds \<noteq> []" "py_strip (CHR ''-'' # ds) \<noteq> []"
    by (simp_all add: py_strip_empty_iff)
  show "py_str x = ds \<Longrightarrow> x \<noteq> NaN
          \<Longrightarrow> clean_minutes x = to_binary64 False (of_int (int_of_digits ds))"
    using nonblank(1) commas py_float_digits(1) [OF assms]
    by (simp add: clean_minutes_def clean_minutes_try_def)
  show "py_str x = CHR ''-'' # ds \<Longrightarrow> x \<noteq> NaN
           \<Longrightarrow> clean_minutes x = to_binary64 True (of_int (int_of_digits ds))"
    using nonblank(2) commas py_float_digits(2) [OF assms]
    by (simp add: clean_minutes_def clean_minutes_try_def)
qed

lemma clean_minutes_Num:
  assumes "\<bar>i\<bar> \<le> 2 ^ 53"
  shows "clean_minutes (Num i) = Value (of_int i)"
proof (cases "i < 0")
  case True
  let ?ds = "digits_of (- i)"
  have "py_str (Num i) = CHR ''-'' # ?ds"
    using True by simp
  from clean_minutes_text_digits(2) [OF digits_of_digits [THEN conjunct1]
      digits_of_digits [THEN conjunct2] this]
  have "clean_minutes (Num i) = to_binary64 True (of_int (- i))"
    using True by (simp add: int_of_digits_of)
  also have "\<dots> = Value (- of_int (- i))"
    using True assms by (subst to_binary64_int) simp_all
  finally show ?thesis
    by simp
next
  case False
  let ?ds = "digits_of i"
  have "py_str (Num i) = ?ds"
    using False by simp
  from clean_minutes_text_digits(1) [OF digits_of_digits [THEN conjunct1]
      digits_of_digits [THEN conjunct2] this]
  have eq: "clean_minutes (Num i) = to_binary64 False (of_int i)"
    using False by (simp add: int_of_digits_of)
  show ?thesis
  proof (cases "i = 0")
    case True
    then show ?thesis
      unfolding eq by (simp add: to_binary64_def)
  next
    case nz: False
    with False assms show ?thesis
      unfolding eq by (subst to_binary64_int) simp_all
  qed
qed

text \<open>
  What \<^verbatim>\<open>float\<close> returns for a decimal text, and \<^verbatim>\<open>clean_minutes\<close> for a text that
  \<^verbatim>\<open>float\<close> reads.
\<close>

lemma py_float_decimal:
  assumes "drop_underscores (CHR 0x00) (to_ascii s) = Some t"
    and "take_sign (rev (dropWhile c_isspace (rev (dropWhile c_isspace t)))) = (neg, body)"
    and "py_lower body \<noteq> ''inf''" "py_lower body \<noteq> ''infinity''" "py_lower body \<noteq> ''nan''"
    and "parse_decimal body = Some v"
  shows "py_float s = Inr (to_binary64 neg v)"
  using assms by (simp add: py_float_def Let_def)

lemma one_over_less: "(0::rat) < b \<Longrightarrow> b < a \<Longrightarrow> 1 / a < 1 / b"
  by (rule frac_less2) simp_all

lemma clean_minutes_float:
  assumes "py_strip s \<noteq> []" "py_float (filter (\<lambda>c. c \<noteq> CHR '','') s) = Inr v"
  shows "clean_minutes (Str s) = v"
  using assms by (simp add: clean_minutes_def clean_minutes_try_def)

lemma clean_minutes_overflow: "clean_minutes (Str ''1e309'') = PosInf"
proof -
  have "drop_underscores (CHR 0x00) (to_ascii ''1e309'') = Some ''1e309''"
    by code_simp
  moreover have "take_sign (rev (dropWhile c_isspace (rev (dropWhile c_isspace ''1e309''))))
      = (False, ''1e309'')"
    by code_simp
  moreover have "py_lower ''1e309'' \<noteq> ''inf''" "py_lower ''1e309'' \<noteq> ''infinity''"
    "py_lower ''1e309'' \<noteq> ''nan''"
    by code_simp+
  moreover have "parse_decimal ''1e309'' = Some (of_int (10 ^ 309))"
    by code_simp
  ultimately have pf: "py_float ''1e309'' = Inr (to_binary64 False (of_int (10 ^ 309)))"
    by (rule py_float_decimal)
  have "(2::int) ^ 1024 \<le> 10 ^ 309"
    by code_simp
  then have "(of_int (2 ^ 1024) :: rat) \<le> of_int (10 ^ 309)"
    by (simp only: of_int_le_iff)
  then have "(2::rat) ^ 1024 \<le> of_int (10 ^ 309)"
    by (simp only: of_int_power of_int_numeral)
  from to_binary64_overflow [OF this, of False]
  have "to_binary64 False (of_int (10 ^ 309)) = PosInf"
    by (simp only: if_False)
  with pf have "py_float ''1e309'' = Inr PosInf"
    by (simp only:)
  moreover have "filter (\<lambda>c. c \<noteq> CHR '','') ''1e309'' = ''1e309''"
    by code_simp
  ultimately have "py_float (filter (\<lambda>c. c \<noteq> CHR '','') ''1e309'') = Inr PosInf"
    by (simp only:)
  moreover have "py_strip ''1e309'' \<noteq> []"
    by code_simp
  ultimately show ?thesis
    by (rule clean_minutes_float [rotated])
qed

lemma clean_minutes_underflow: "clean_minutes (Str ''-1e-400'') = NegZero"
proof -
  have "drop_underscores (CHR 0x00) (to_ascii ''-1e-400'') = Some ''-1e-400''"
    by code_simp
  moreover have "take_sign (rev (dropWhile c_isspace (rev (dropWhile c_isspace ''-1e-400''))))
      = (True, ''1e-400'')"
    by code_simp
  moreover have "py_lower ''1e-400'' \<noteq> ''inf''" "py_lower ''1e-400'' \<noteq> ''infinity''"
    "py_lower ''1e-400'' \<noteq> ''nan''"
    by code_simp+
  moreover have "parse_decimal ''1e-400'' = Some (1 / of_int (10 ^ 400))"
    by code_simp
  ultimately have pf: "py_float ''-1e-400'' = Inr (to_binary64 True (1 / of_int (10 ^ 400)))"
    by (rule py_float_decimal)
  have "(2::int) ^ 1075 < 10 ^ 400"
    by code_simp
  then have "(of_int (2 ^ 1075) :: rat) < of_int (10 ^ 400)"
    by (simp only: of_int_less_iff)
  moreover have "(0::rat) < of_int (2 ^ 1075)"
    by (simp only: of_int_0_less_iff) (rule zero_less_power, simp)
  ultimately have "1 / (of_int (10 ^ 400) :: rat) < 1 / of_int (2 ^ 1075)"
    by (rule one_over_less [rotated])
  moreover have "1 / (of_int (2 ^ 1075) :: rat) = 2 powi (- 1075)"
    by (simp only: pow2_powi [symmetric] pow2_def) simp
  ultimately have small: "1 / (of_int (10 ^ 400) :: rat) < 2 powi (- 1075)"
    by (simp only:)
  have "(0::int) < 10 ^ 400"
    by (rule zero_less_power) simp
  then have "(0::rat) < 1 / of_int (10 ^ 400)"
    by (simp only: zero_less_divide_1_iff of_int_0_less_iff)
  from to_binary64_underflow [OF this small, of True]
  have "to_binary64 True (1 / of_int (10 ^ 400)) = NegZero"
    by (simp only: if_True)
  with pf have "py_float ''-1e-400'' = Inr NegZero"
    by (simp only:)
  moreover have "filter (\<lambda>c. c \<noteq> CHR '','') ''-1e-400'' = ''-1e-400''"
    by code_simp
  ultimately have "py_float (filter (\<lambda>c. c \<noteq> CHR '','') ''-1e-400'') = Inr NegZero"
    by (simp only:)
  moreover have "py_strip ''-1e-400'' \<noteq> []"
    by code_simp
  ultimately show ?thesis
    by (rule clean_minutes_float [rotated])
qed

text \<open>
  Claim C5. \<^verbatim>\<open>clean_minutes\<close> returns a number for every cell: 0 for a missing cell,
  for a blank one and for one whose text, commas removed, \<^verbatim>\<open>float\<close> rejects; otherwise
  the number that \<^verbatim>\<open>float\<close> reads from the text without its commas, whatever its
  sign. "1,250" gives 1250, the empty text and "abc" give 0, "-1,250" gives \<open>-1250\<close>, and
  an integer of magnitude at most \<open>2 ^ 53\<close> gives its own value, as the default 0 of a
  missing work time does. The number is the binary64 nearest to the text: \<open>2 ^ 53 + 1\<close>
  gives \<open>2 ^ 53\<close>, "0.1" gives \<open>3602879701896397 / 2 ^ 55\<close>, "1e309" gives infinity and
  "-1e-400" the negative zero, neither of them an error. The work time of a returned record
  is this function of the entry's raw work time.
\<close>

theorem clean_minutes_coercion:
  "clean_minutes NaN = Value 0
   \<and> (py_strip (py_str x) = [] \<longrightarrow> clean_minutes x = Value 0)
   \<and> (py_float (filter (\<lambda>c. c \<noteq> CHR '','') (py_str x)) = Inl e \<longrightarrow> clean_minutes x = Value 0)
   \<and> (x \<noteq> NaN \<and> py_strip (py_str x) \<noteq> []
        \<and> py_float (filter (\<lambda>c. c \<noteq> CHR '','') (py_str x)) = Inr v
      \<longrightarrow> clean_minutes x = v)
   \<and> clean_minutes (Str ''1,250'') = Value 1250
   \<and> clean_minutes (Str '''') = Value 0
   \<and> clean_minutes (Str ''abc'') = Value 0
   \<and> clean_minutes (Str ''-1,250'') = Value (- 1250)
   \<and> clean_minutes (Num 0) = Value 0
   \<and> (\<bar>n\<bar> \<le> 2 ^ 53 \<longrightarrow> clean_minutes (Num n) = Value (of_int n))
   \<and> clean_minutes (Num 9007199254740993) = Value 9007199254740992
   \<and> clean_minutes (Str ''0.1'') = Value (3602879701896397 / 36028797018963968)
   \<and> clean_minutes (Str ''1e309'') = PosInf
   \<and> clean_minutes (Str ''-1e-400'') = NegZero
   \<and> Work_Time_Mins (post_process en) = clean_minutes (Work_Time_Mins en)"
proof -
  have a: "clean_minutes NaN = Value 0"
    by (simp add: clean_minutes_def clean_minutes_try_def)
  have b: "py_strip (py_str x) = [] \<longrightarrow> clean_minutes x = Value 0"
    by (simp add: clean_minutes_def clean_minutes_try_def)
  have c: "py_float (filter (\<lambda>c. c \<noteq> CHR '','') (py_str x)) = Inl e \<longrightarrow> clean_minutes x = Value 0"
    by (simp add: clean_minutes_def clean_minutes_try_def)
  have d: "x \<noteq> NaN \<and> py_strip (py_str x) \<noteq> []
        \<and> py_float (filter (\<lambda>c. c \<noteq> CHR '','') (py_str x)) = Inr v
      \<longrightarrow> clean_minutes x = v"
    by (simp add: clean_minutes_def clean_minutes_try_def)
  have e1: "clean_minutes (Str ''1,250'') = Value 1250"
    by code_simp
  have e2: "clean_minutes (Str '''') = Value 0"
    by code_simp
  have e3: "clean_minutes (Str ''abc'') = Value 0"
    by code_simp
  have e4: "clean_minutes (Str ''-1,250'') = Value (- 1250)"
    by code_simp
  have e5: "clean_minutes (Num 0) = Value 0"
    by code_simp
  have e6: "\<bar>n\<bar> \<le> 2 ^ 53 \<longrightarrow> clean_minutes (Num n) = Value (of_int n)"
    by (rule impI) (rule clean_minutes_Num)
  have e7: "clean_minutes (Num 9007199254740993) = Value 9007199254740992"
    by code_simp
  have e8: "clean_minutes (Str ''0.1'') = Value (3602879701896397 / 36028797018963968)"
    by code_simp
  have f: "Work_Time_Mins (post_process en) = clean_minutes (Work_Time_Mins en)"
    by (simp add: post_process_def)
  show ?thesis
    by (intro conjI)
      (fact a, fact b, fact c, fact d, fact e1, fact e2, fact e3, fact e4, fact e5,
       fact e6, fact e7, fact e8, fact clean_minutes_overflow, fact clean_minutes_underflow,
       fact f)
qed

theorem clean_minutes_coercion_witness:
  "py_strip (py_str (Str ''  '')) = [] \<and> clean_minutes (Str ''  '') = Value 0
   \<and> py_float (filter (\<lambda>c. c \<noteq> CHR '','') (py_str (Str ''12 mins''))) = Inl ValueError
   \<and> clean_minutes (Str ''12 mins'') = Value 0
   \<and> py_float (filter (\<lambda>c. c \<noteq> CHR '','') (py_str (Str ''-7.5''))) = Inr (Value (- 15 / 2))
   \<and> clean_minutes (Str ''-7.5'') = Value (- 15 / 2)
   \<and> \<bar>90 :: int\<bar> \<le> 2 ^ 53 \<and> clean_minutes (Num 90) = Value 90"
proof -
  have h1: "py_strip (py_str (Str ''  '')) = []"
    by code_simp
  have h2: "py_float (filter (\<lambda>c. c \<noteq> CHR '','') (py_str (Str ''12 mins''))) = Inl ValueError"
    by code_simp
  have h3: "py_float (filter (\<lambda>c. c \<noteq> CHR '','') (py_str (Str ''-7.5''))) = Inr (Value (- 15 / 2))"
    by code_simp
  have h4: "Str ''-7.5'' \<noteq> NaN \<and> py_strip (py_str (Str ''-7.5'')) \<noteq> []"
    by code_simp
  have h5: "\<bar>90 :: int\<bar> \<le> 2 ^ 53"
    by simp
  have a: "clean_minutes (Str ''  '') = Value 0"
    using clean_minutes_coercion [where x = "Str ''  ''"] h1 by blast
  have b: "clean_minutes (Str ''12 mins'') = Value 0"
    using clean_minutes_coercion [where x = "Str ''12 mins''" and e = ValueError] h2 by blast
  have c: "clean_minutes (Str ''-7.5'') = Value (- 15 / 2)"
    using clean_minutes_coercion [where x = "Str ''-7.5''" and v = "Value (- 15 / 2)"] h3 h4
    by blast
  have d: "clean_minutes (Num 90) = Value 90"
    using clean_minutes_coercion [where n = 90] h5 by simp
  from h1 a h2 b h3 c h5 d show ?thesis
    by blast
qed

subsection \<open>Date parsing\<close>

lemma ordinal_match_no_digit: "\<not> is_digit c \<Longrightarrow> ordinal_match (c # s) = None"
  by (simp add: ordinal_match_def)

lemma strip_ordinals_no_digits:
  "\<not> list_ex is_digit pre \<Longrightarrow> strip_ordinals (pre @ s) = pre @ strip_ordinals s"
  by (induction pre) (simp_all add: ordinal_match_no_digit)

lemma suffix_not_digit:
  assumes "suf \<in> set [''st'', ''nd'', ''rd'', ''th'']"
  shows "takeWhile is_digit (suf @ post) = [] \<and> dropWhile is_digit (suf @ post) = suf @ post
         \<and> take 2 (suf @ post) = suf \<and> drop 2 (suf @ post) = post"
  using assms by (auto simp: is_digit_def)

lemma ordinal_match_digits:
  assumes "ds \<noteq> []" "list_all is_digit ds" "suf \<in> set [''st'', ''nd'', ''rd'', ''th'']"
  shows "ordinal_match (ds @ suf @ post) = Some (ds, post)"
proof -
  have all: "\<And>x. x \<in> set ds \<Longrightarrow> is_digit x"
    using assms(2) by (simp add: list_all_iff)
  have t: "takeWhile is_digit (ds @ suf @ post) = ds"
    using all suffix_not_digit [OF assms(3), of post] by (simp add: takeWhile_append2)
  have d: "dropWhile is_digit (ds @ suf @ post) = suf @ post"
    using all suffix_not_digit [OF assms(3), of post] by (simp add: dropWhile_append2)
  show ?thesis
    unfolding ordinal_match_def Let_def t d
    using assms(1,3) suffix_not_digit [OF assms(3), of post] by simp
qed

lemma strip_ordinals_digits:
  assumes "ds \<noteq> []" "list_all is_digit ds" "suf \<in> set [''st'', ''nd'', ''rd'', ''th'']"
  shows "strip_ordinals (ds @ suf @ post) = ds @ strip_ordinals post"
proof -
  from assms(1) obtain c cs where ds: "ds = c # cs"
    by (cases ds) auto
  have "ordinal_match (c # (cs @ suf @ post)) = Some (ds, post)"
    using ordinal_match_digits [OF assms, of post] ds by simp
  then show ?thesis
    using ds by simp
qed

text \<open>
  Claim C6. "Sat, Nov 01, 25" parses to 1 November 2025. An ordinal suffix after a run
  of digits is removed before \<^verbatim>\<open>strptime\<close> sees the text, so "Sat, Nov 1st, 25" parses
  to the same date. Whenever \<^verbatim>\<open>strptime\<close> raises, the parsed date is the null marker:
  "Nov 1st, 25" (no weekday) and "Sat, Feb 30, 25" (no such day) are examples. The
  returned frame has one record for every entry, with the entry's label and the date
  parsed from it, null or not.
\<close>

theorem parse_custom_date_cases:
  "parse_custom_date ''Sat, Nov 01, 25'' = Some (2025, 11, 1)
   \<and> (\<not> list_ex is_digit pre \<and> ds \<noteq> [] \<and> list_all is_digit ds
        \<and> suf \<in> set [''st'', ''nd'', ''rd'', ''th'']
      \<longrightarrow> strip_ordinals (pre @ ds @ suf @ post) = pre @ ds @ strip_ordinals post)
   \<and> parse_custom_date ''Sat, Nov 1st, 25'' = Some (2025, 11, 1)
   \<and> (strptime (strip_ordinals d_str) = Inl e \<longrightarrow> parse_custom_date d_str = None)
   \<and> parse_custom_date ''Nov 1st, 25'' = None
   \<and> parse_custom_date ''Sat, Feb 30, 25'' = None
   \<and> Date (post_process en) = Date en
   \<and> Date_Obj (post_process en) = parse_custom_date (Date en)
   \<and> (3 \<le> total_cols g \<and> 3 \<le> length g
      \<longrightarrow> fst (load_and_clean_data (Inr g)) = map post_process (processed_rows g))"
proof -
  have a: "parse_custom_date ''Sat, Nov 01, 25'' = Some (2025, 11, 1)"
    by code_simp
  have b: "\<not> list_ex is_digit pre \<and> ds \<noteq> [] \<and> list_all is_digit ds
        \<and> suf \<in> set [''st'', ''nd'', ''rd'', ''th'']
      \<longrightarrow> strip_ordinals (pre @ ds @ suf @ post) = pre @ ds @ strip_ordinals post"
    using strip_ordinals_no_digits strip_ordinals_digits by simp
  have c: "parse_custom_date ''Sat, Nov 1st, 25'' = Some (2025, 11, 1)"
    by code_simp
  have d: "strptime (strip_ordinals d_str) = Inl e \<longrightarrow> parse_custom_date d_str = None"
    by (simp add: parse_custom_date_def)
  have e: "parse_custom_date ''Nov 1st, 25'' = None"
    by code_simp
  have f: "parse_custom_date ''Sat, Feb 30, 25'' = None"
    by code_simp
  have g: "Date (post_process en) = Date en"
    by (simp add: post_process_def)
  have h: "Date_Obj (post_process en) = parse_custom_date (Date en)"
    by (simp add: post_process_def)
  have i: "3 \<le> total_cols g \<and> 3 \<le> length g
      \<longrightarrow> fst (load_and_clean_data (Inr g)) = map post_process (processed_rows g)"
    by (auto simp: load_and_clean_data_def process_def Let_def)
  from a b c d e f g h i show ?thesis
    by blast
qed

theorem parse_custom_date_cases_witness:
  "strip_ordinals ''Sat, Nov 22nd, 25'' = ''Sat, Nov 22, 25''
   \<and> strptime (strip_ordinals ''Nov 1st, 25'') = Inl ValueError
   \<and> parse_custom_date ''Nov 1st, 25'' = None
   \<and> map Date (fst (load_and_clean_data (Inr unparsed_date_frame))) = [''Nov 1st, 25'']
   \<and> map Date_Obj (fst (load_and_clean_data (Inr unparsed_date_frame))) = [None]"
proof -
  have h1: "\<not> list_ex is_digit ''Sat, Nov '' \<and> ''22'' \<noteq> [] \<and> list_all is_digit ''22''
            \<and> ''nd'' \<in> set [''st'', ''nd'', ''rd'', ''th'']"
    by (simp add: is_digit_def)
  have h2: "strptime (strip_ordinals ''Nov 1st, 25'') = Inl ValueError"
    by code_simp
  have h3: "3 \<le> total_cols unparsed_date_frame \<and> 3 \<le> length unparsed_date_frame"
    by (simp add: unparsed_date_frame_def total_cols_def)
  have tail: "strip_ordinals '', 25'' = '', 25''"
    by code_simp
  have rows: "map Date (processed_rows unparsed_date_frame) = [''Nov 1st, 25'']"
    by code_simp
  note T = parse_custom_date_cases [where pre = "''Sat, Nov ''" and ds = "''22''"
      and suf = "''nd''" and post = "'', 25''" and d_str = "''Nov 1st, 25''"
      and e = ValueError and g = unparsed_date_frame]
  have s: "strip_ordinals ''Sat, Nov 22nd, 25'' = ''Sat, Nov 22, 25''"
    using T h1 tail by simp
  have out: "fst (load_and_clean_data (Inr unparsed_date_frame))
               = map post_process (processed_rows unparsed_date_frame)"
    using T h3 by blast
  have d1: "map Date (fst (load_and_clean_data (Inr unparsed_date_frame))) = [''Nov 1st, 25'']"
    using rows T unfolding out by (simp add: comp_def)
  have d2: "map Date_Obj (fst (load_and_clean_data (Inr unparsed_date_frame))) = [None]"
    using rows T unfolding out by (auto simp: comp_def)
  from s h2 T d1 d2 show ?thesis
    by blast
qed

subsection \<open>Column role map\<close>

lemma scan_columns_keys:
  "fst ` set (scan_columns dr hr cs cur) \<subseteq> set cs"
  by (induction cs arbitrary: cur) (auto simp: Let_def split: option.splits)

lemma scan_columns_lookup:
  assumes "distinct cs" "c \<in> set cs"
  shows "map_of (scan_columns dr hr cs cur) c
           = (case (foldl (next_date dr) cur (takeWhile (\<lambda>x. x \<noteq> c) cs @ [c]),
                    classify (py_strip (py_str (cell_at hr c)))) of
                (Some d, Some f) \<Rightarrow> Some (d, f)
              | _ \<Rightarrow> None)"
  using assms
proof (induction cs arbitrary: cur)
  case Nil
  then show ?case by simp
next
  case (Cons a cs)
  let ?cur = "next_date dr cur a"
  show ?case
  proof (cases "a = c")
    case True
    with Cons.prems(1) have "c \<notin> set cs"
      by simp
    with scan_columns_keys [of dr hr cs ?cur]
    have "map_of (scan_columns dr hr cs ?cur) c = None"
      by (auto simp: map_of_eq_None_iff)
    with True show ?thesis
      by (auto simp: Let_def split: option.splits)
  next
    case False
    with Cons.prems have "distinct cs" "c \<in> set cs"
      by auto
    from Cons.IH [OF this, of ?cur] False show ?thesis
      by (auto simp: Let_def split: option.splits)
  qed
qed

lemma takeWhile_upt:
  assumes "a \<le> c" "c < n"
  shows "takeWhile (\<lambda>x. x \<noteq> c) [a..<n] = [a..<c]"
proof -
  from assms have eq: "[a..<n] = [a..<c] @ c # [Suc c..<n]"
    by (metis le_add_diff_inverse less_imp_le_nat upt_add_eq_append upt_conv_Cons)
  have "\<And>x. x \<in> set [a..<c] \<Longrightarrow> x \<noteq> c"
    by simp
  then have "takeWhile (\<lambda>x. x \<noteq> c) ([a..<c] @ c # [Suc c..<n])
               = [a..<c] @ takeWhile (\<lambda>x. x \<noteq> c) (c # [Suc c..<n])"
    by (rule takeWhile_append2)
  then show ?thesis
    unfolding eq by simp
qed

lemma foldl_next_date_Some:
  "foldl (next_date dr) cur [a..<b] = Some d \<longleftrightarrow>
     (\<exists>j. a \<le> j \<and> j < b \<and> date_label (cell_at dr j) = Some d
          \<and> (\<forall>k. j < k \<and> k < b \<longrightarrow> date_label (cell_at dr k) = None))
     \<or> (cur = Some d \<and> (\<forall>k. a \<le> k \<and> k < b \<longrightarrow> date_label (cell_at dr k) = None))"
proof (induction b)
  case 0
  then show ?case by simp
next
  case (Suc b)
  show ?case
  proof (cases "a \<le> b")
    case False
    then show ?thesis by auto
  next
    case True
    show ?thesis
    proof (cases "date_label (cell_at dr b)")
      case None
      have "foldl (next_date dr) cur [a..<Suc b] = foldl (next_date dr) cur [a..<b]"
        using True None by simp
      also have "\<dots> = Some d \<longleftrightarrow>
        (\<exists>j. a \<le> j \<and> j < b \<and> date_label (cell_at dr j) = Some d
          \<and> (\<forall>k. j < k \<and> k < b \<longrightarrow> date_label (cell_at dr k) = None))
        \<or> (cur = Some d \<and> (\<forall>k. a \<le> k \<and> k < b \<longrightarrow> date_label (cell_at dr k) = None))"
        by (rule Suc.IH)
      also have "\<dots> \<longleftrightarrow>
        (\<exists>j. a \<le> j \<and> j < Suc b \<and> date_label (cell_at dr j) = Some d
          \<and> (\<forall>k. j < k \<and> k < Suc b \<longrightarrow> date_label (cell_at dr k) = None))
        \<or> (cur = Some d \<and> (\<forall>k. a \<le> k \<and> k < Suc b \<longrightarrow> date_label (cell_at dr k) = None))"
        using None by (auto simp: less_Suc_eq)
      finally show ?thesis .
    next
      case (Some v)
      have "foldl (next_date dr) cur [a..<Suc b] = Some v"
        using True Some by simp
      moreover have "(\<exists>j. a \<le> j \<and> j < Suc b \<and> date_label (cell_at dr j) = Some d
          \<and> (\<forall>k. j < k \<and> k < Suc b \<longrightarrow> date_label (cell_at dr k) = None)) \<longleftrightarrow> v = d"
      proof
        assume "\<exists>j. a \<le> j \<and> j < Suc b \<and> date_label (cell_at dr j) = Some d
          \<and> (\<forall>k. j < k \<and> k < Suc b \<longrightarrow> date_label (cell_at dr k) = None)"
        then obtain j where j: "j < Suc b" "date_label (cell_at dr j) = Some d"
          "\<forall>k. j < k \<and> k < Suc b \<longrightarrow> date_label (cell_at dr k) = None"
          by blast
        have "j = b"
        proof (rule ccontr)
          assume "j \<noteq> b"
          with j(1) have "j < b" by simp
          with j(3) have "date_label (cell_at dr b) = None" by simp
          with Some show False by simp
        qed
        with j(2) Some show "v = d" by simp
      next
        assume "v = d"
        with Some True show "\<exists>j. a \<le> j \<and> j < Suc b \<and> date_label (cell_at dr j) = Some d
          \<and> (\<forall>k. j < k \<and> k < Suc b \<longrightarrow> date_label (cell_at dr k) = None)"
          by (intro exI [of _ b]) auto
      qed
      moreover have "\<not> (\<forall>k. a \<le> k \<and> k < Suc b \<longrightarrow> date_label (cell_at dr k) = None)"
        using True Some by auto
      ultimately show ?thesis
        by auto
    qed
  qed
qed

lemma foldl_next_date_set:
  "foldl (next_date dr) None [a..<b] \<noteq> None \<longleftrightarrow>
     (\<exists>j. a \<le> j \<and> j < b \<and> date_label (cell_at dr j) \<noteq> None)"
proof (induction b)
  case 0
  then show ?case by simp
next
  case (Suc b)
  show ?case
  proof (cases "a \<le> b")
    case False
    then show ?thesis by auto
  next
    case True
    then show ?thesis
      using Suc.IH by (cases "date_label (cell_at dr b)") (auto simp: less_Suc_eq)
  qed
qed

lemma col_map_lookup:
  assumes "7 \<le> c" "c < total_cols g"
  shows "map_of (col_map g) c
           = (case (foldl (next_date (g ! 1)) None [7..<Suc c],
                    classify (py_strip (py_str (cell_at (g ! 2) c)))) of
                (Some d, Some f) \<Rightarrow> Some (d, f)
              | _ \<Rightarrow> None)"
proof -
  have "c \<in> set [7..<total_cols g]"
    using assms by simp
  from scan_columns_lookup [OF distinct_upt this, of "g ! 1" "g ! 2" None]
  show ?thesis
    unfolding col_map_def takeWhile_upt [OF assms] using assms(1) by simp
qed

text \<open>
  Claim C3, as amended. Let \<open>c\<close> be a scanned column of a frame with its header rows
  (\<open>7 \<le> c\<close>, below the width). The role map holds \<open>c\<close> exactly when the field-axis cell
  of \<open>c\<close> matches a marker and some date-axis cell at a scanned column \<open>j\<close>,
  \<open>7 \<le> j \<le> c\<close>, holds a label; it then maps \<open>c\<close> to the label of the nearest such
  column and to the field of the first marker that matches. A date-axis cell holds a
  label when its trimmed text is neither empty nor \<^verbatim>\<open>nan\<close> in any letter case (the
  text of a missing cell is \<^verbatim>\<open>nan\<close>). The markers are tried in the order Attendance,
  Activity Category, Task Priority, Start, End, Work Time or Mins, Description, each by
  a case-sensitive test for a contiguous run.
\<close>

theorem col_map_entry_iff:
  assumes "3 \<le> length g" and "7 \<le> c" and "c < total_cols g"
  shows "(map_of (col_map g) c = Some (d, f) \<longleftrightarrow>
            classify (py_strip (py_str (cell_at (g ! 2) c))) = Some f
            \<and> (\<exists>j. 7 \<le> j \<and> j \<le> c \<and> date_label (cell_at (g ! 1) j) = Some d
                 \<and> (\<forall>k. j < k \<and> k \<le> c \<longrightarrow> date_label (cell_at (g ! 1) k) = None)))
     \<and> (c \<in> fst ` set (col_map g) \<longleftrightarrow>
            classify (py_strip (py_str (cell_at (g ! 2) c))) \<noteq> None
            \<and> (\<exists>j. 7 \<le> j \<and> j \<le> c \<and> date_label (cell_at (g ! 1) j) \<noteq> None))
     \<and> (date_label x = Some v \<longleftrightarrow>
            v = py_strip (py_str x) \<and> v \<noteq> [] \<and> py_lower v \<noteq> ''nan'')
     \<and> classify h =
          (if sublist ''Attendance'' h then Some ''Attendance_Status''
           else if sublist ''Activity Category'' h then Some ''Activity Category''
           else if sublist ''Task Priority'' h then Some ''Task Priority''
           else if sublist ''Start'' h then Some ''Start Time''
           else if sublist ''End'' h then Some ''End Time''
           else if sublist ''Work Time'' h \<or> sublist ''Mins'' h then Some ''Work Time (Mins)''
           else if sublist ''Description'' h then Some ''Description''
           else None)"
proof -
  let ?cur = "foldl (next_date (g ! 1)) None [7..<Suc c]"
  let ?fld = "classify (py_strip (py_str (cell_at (g ! 2) c)))"
  have look: "map_of (col_map g) c
           = (case (?cur, ?fld) of (Some d, Some f) \<Rightarrow> Some (d, f) | _ \<Rightarrow> None)"
    by (rule col_map_lookup [OF assms(2,3)])
  have cur: "?cur = Some d \<longleftrightarrow>
      (\<exists>j. 7 \<le> j \<and> j \<le> c \<and> date_label (cell_at (g ! 1) j) = Some d
           \<and> (\<forall>k. j < k \<and> k \<le> c \<longrightarrow> date_label (cell_at (g ! 1) k) = None))"
    unfolding foldl_next_date_Some by (simp add: less_Suc_eq_le)
  have a: "map_of (col_map g) c = Some (d, f) \<longleftrightarrow>
            ?fld = Some f
            \<and> (\<exists>j. 7 \<le> j \<and> j \<le> c \<and> date_label (cell_at (g ! 1) j) = Some d
                 \<and> (\<forall>k. j < k \<and> k \<le> c \<longrightarrow> date_label (cell_at (g ! 1) k) = None))"
    unfolding look cur [symmetric] by (auto split: option.splits)
  have set: "?cur \<noteq> None \<longleftrightarrow>
      (\<exists>j. 7 \<le> j \<and> j \<le> c \<and> date_label (cell_at (g ! 1) j) \<noteq> None)"
    unfolding foldl_next_date_set by (simp add: less_Suc_eq_le)
  have "c \<in> fst ` set (col_map g) \<longleftrightarrow> map_of (col_map g) c \<noteq> None"
    by (simp add: map_of_eq_None_iff)
  also have "\<dots> \<longleftrightarrow> ?fld \<noteq> None \<and> ?cur \<noteq> None"
    unfolding look by (auto split: option.splits)
  finally have b: "c \<in> fst ` set (col_map g) \<longleftrightarrow>
            ?fld \<noteq> None
            \<and> (\<exists>j. 7 \<le> j \<and> j \<le> c \<and> date_label (cell_at (g ! 1) j) \<noteq> None)"
    unfolding set .
  have c: "date_label x = Some v \<longleftrightarrow>
            v = py_strip (py_str x) \<and> v \<noteq> [] \<and> py_lower v \<noteq> ''nan''"
    by (auto simp: date_label_def Let_def)
  have d: "classify h =
          (if sublist ''Attendance'' h then Some ''Attendance_Status''
           else if sublist ''Activity Category'' h then Some ''Activity Category''
           else if sublist ''Task Priority'' h then Some ''Task Priority''
           else if sublist ''Start'' h then Some ''Start Time''
           else if sublist ''End'' h then Some ''End Time''
           else if sublist ''Work Time'' h \<or> sublist ''Mins'' h then Some ''Work Time (Mins)''
           else if sublist ''Description'' h then Some ''Description''
           else None)"
    unfolding classify_def py_in_sublist ..
  show ?thesis
    by (intro conjI) (fact a, fact b, fact c, fact d)
qed

theorem col_map_entry_iff_witness:
  "3 \<le> length continuation_frame \<and> 7 \<le> (8::nat) \<and> 8 < total_cols continuation_frame
   \<and> map_of (col_map continuation_frame) 8 = Some (''Sat, Nov 01, 25'', ''Work Time (Mins)'')
   \<and> 8 \<in> fst ` set (col_map continuation_frame)"
proof -
  let ?F = continuation_frame
  have h1: "3 \<le> length ?F" and h2: "7 \<le> (8::nat)" and h3: "8 < total_cols ?F"
    by code_simp+
  have fld: "classify (py_strip (py_str (cell_at (?F ! 2) 8))) = Some ''Work Time (Mins)''"
    by code_simp
  have d7: "date_label (cell_at (?F ! 1) 7) = Some ''Sat, Nov 01, 25''"
    by code_simp
  have d8: "date_label (cell_at (?F ! 1) 8) = None"
    by code_simp
  have gap: "\<forall>k. 7 < k \<and> k \<le> 8 \<longrightarrow> date_label (cell_at (?F ! 1) k) = None"
  proof (intro allI impI)
    fix k :: nat
    assume "7 < k \<and> k \<le> 8"
    then have "k = 8" by arith
    with d8 show "date_label (cell_at (?F ! 1) k) = None" by simp
  qed
  have near: "\<exists>j. 7 \<le> j \<and> j \<le> 8 \<and> date_label (cell_at (?F ! 1) j) = Some ''Sat, Nov 01, 25''
                \<and> (\<forall>k. j < k \<and> k \<le> 8 \<longrightarrow> date_label (cell_at (?F ! 1) k) = None)"
    using d7 gap by (intro exI [of _ 7]) simp
  have some: "\<exists>j. 7 \<le> j \<and> j \<le> 8 \<and> date_label (cell_at (?F ! 1) j) \<noteq> None"
    using d7 by (intro exI [of _ 7]) simp
  note T = col_map_entry_iff [OF h1 h2 h3, where d = "''Sat, Nov 01, 25''"
      and f = "''Work Time (Mins)''"]
  from T fld near have a: "map_of (col_map ?F) 8 = Some (''Sat, Nov 01, 25'', ''Work Time (Mins)'')"
    by blast
  from T fld some have b: "8 \<in> fst ` set (col_map ?F)"
    by simp
  from h1 h2 h3 a b show ?thesis
    by blast
qed

text \<open>
  The claim as first stated counts every date-axis cell at a column up to \<open>c\<close> that is
  not blank after trimming. Two frames show the difference: a date-axis cell with the
  text "NAN" at column 7, and a date at column 0 with none from column 7 on; in both
  the field-axis cell of column 7 reads "Attendance" and column 7 is not mapped.
\<close>

theorem col_map_blank_date_counterexample:
  "cell_at (nan_label_frame ! 1) 7 = Str ''NAN''
   \<and> py_strip ''NAN'' = ''NAN''
   \<and> classify (py_strip (py_str (cell_at (nan_label_frame ! 2) 7))) = Some ''Attendance_Status''
   \<and> 7 < total_cols nan_label_frame
   \<and> 7 \<notin> fst ` set (col_map nan_label_frame)
   \<and> cell_at (early_label_frame ! 1) 0 = Str ''Sat, Nov 01, 25''
   \<and> py_strip ''Sat, Nov 01, 25'' = ''Sat, Nov 01, 25''
   \<and> classify (py_strip (py_str (cell_at (early_label_frame ! 2) 7))) = Some ''Attendance_Status''
   \<and> 7 < total_cols early_label_frame
   \<and> 7 \<notin> fst ` set (col_map early_label_frame)"
  by code_simp

subsection \<open>Groups and entries of a row\<close>

lemma group_cells_append:
  "group_cells r (xs @ ys) rt = group_cells r ys (group_cells r xs rt)"
  by (induction xs arbitrary: rt) (auto simp: Let_def)

lemma group_cells_distinct:
  "distinct (map fst rt) \<Longrightarrow> distinct (map fst (group_cells r cm rt))"
  by (induction cm arbitrary: rt) (auto simp: Let_def distinct_update)

lemma group_cells_keep:
  assumes "\<forall>(c', d', f') \<in> set post. \<not> (d' = d \<and> f' = f)"
    and "map_of rt d = Some td"
  shows "\<exists>td'. map_of (group_cells r post rt) d = Some td' \<and> td' f = td f"
  using assms
proof (induction post arbitrary: rt td)
  case Nil
  then show ?case by simp
next
  case (Cons x post)
  obtain c' d' f' where x: "x = (c', d', f')"
    by (cases x) auto
  let ?old = "case map_of rt d' of None \<Rightarrow> Map.empty | Some t \<Rightarrow> t"
  let ?rt = "AList.update d' (?old(f' \<mapsto> cell_at r c')) rt"
  from Cons.prems(1) x have nomatch: "\<not> (d' = d \<and> f' = f)"
    and rest: "\<forall>(c', d', f') \<in> set post. \<not> (d' = d \<and> f' = f)"
    by auto
  have "\<exists>t. map_of ?rt d = Some t \<and> t f = td f"
    using nomatch Cons.prems(2) by (auto simp: update_conv')
  then obtain t where t: "map_of ?rt d = Some t" "t f = td f"
    by blast
  from Cons.IH [OF rest t(1)] t(2) show ?case
    using x by (simp add: Let_def)
qed

lemma group_cells_last_write:
  assumes "cm = pre @ (c, d, f) # post"
    and "\<forall>(c', d', f') \<in> set post. \<not> (d' = d \<and> f' = f)"
  shows "\<exists>td. map_of (group_cells r cm rt) d = Some td \<and> td f = Some (cell_at r c)"
proof -
  let ?rt1 = "group_cells r pre rt"
  let ?old = "case map_of ?rt1 d of None \<Rightarrow> Map.empty | Some t \<Rightarrow> t"
  let ?rt2 = "AList.update d (?old(f \<mapsto> cell_at r c)) ?rt1"
  have split: "group_cells r cm rt = group_cells r post ?rt2"
    unfolding assms(1) group_cells_append by (simp add: Let_def)
  have "map_of ?rt2 d = Some (?old(f \<mapsto> cell_at r c))"
    by (simp add: update_conv')
  from group_cells_keep [OF assms(2) this, of r] show ?thesis
    unfolding split by simp
qed

lemma flatten_tasks_filter:
  "flatten_tasks emp_name location rt
     = map (\<lambda>(d, td). make_entry emp_name location d td)
           (filter (\<lambda>(d, td). \<not> skip_task td) rt)"
  by (induction rt) auto

lemma filter_key_distinct:
  "distinct (map fst rt) \<Longrightarrow> (k, v) \<in> set rt \<Longrightarrow> filter (\<lambda>p. fst p = k) rt = [(k, v)]"
proof (induction rt)
  case Nil
  then show ?case by simp
next
  case (Cons p rt)
  show ?case
  proof (cases "fst p = k")
    case True
    with Cons.prems have "p = (k, v)"
      by (cases p) (auto simp: image_iff)
    moreover from Cons.prems(1) True have "filter (\<lambda>p. fst p = k) rt = []"
      by (auto simp: filter_empty_conv image_iff)
    ultimately show ?thesis by simp
  next
    case False
    with Cons show ?thesis by auto
  qed
qed

lemma Date_make_entry [simp]: "Date (make_entry emp_name location d td) = d"
  by (simp add: make_entry_def)

lemma Date_post_process [simp]: "Date (post_process en) = Date en"
  by (simp add: post_process_def)

lemma flatten_tasks_group:
  assumes "distinct (map fst rt)" "(d, td) \<in> set rt"
  shows "filter (\<lambda>en. Date en = d) (flatten_tasks emp_name location rt)
           = (if skip_task td then [] else [make_entry emp_name location d td])"
proof -
  have "filter (\<lambda>en. Date en = d) (flatten_tasks emp_name location rt)
          = map (\<lambda>(d, td). make_entry emp_name location d td)
              (filter (\<lambda>(d', td'). \<not> skip_task td') (filter (\<lambda>p. fst p = d) rt))"
    unfolding flatten_tasks_filter
    by (simp add: filter_map comp_def case_prod_beta conj_commute)
  also have "\<dots> = (if skip_task td then [] else [make_entry emp_name location d td])"
    unfolding filter_key_distinct [OF assms] by simp
  finally show ?thesis .
qed

lemma row_entries_identity:
  assumes "en \<in> set (row_entries cm (emp_name, location, r))"
  shows "Employee_Name en = emp_name \<and> Location en = location"
  using assms by (auto simp: row_entries_def flatten_tasks_filter make_entry_def)

lemma post_process_identity [simp]:
  "Employee_Name (post_process en) = Employee_Name en"
  "Location (post_process en) = Location en"
  by (simp_all add: post_process_def)

lemma load_records:
  assumes "t \<in> set (fst (load_and_clean_data src))"
  shows "\<exists>g rw en. src = Inr g \<and> rw \<in> set (data_rows g)
           \<and> en \<in> set (row_entries (col_map g) rw) \<and> t = post_process en"
proof (cases src)
  case (Inl cause)
  with assms show ?thesis
    by (simp add: load_and_clean_data_def)
next
  case (Inr g)
  with assms have "t \<in> set (map post_process (processed_rows g))"
    by (auto simp: load_and_clean_data_def process_def Let_def split: if_splits)
  then show ?thesis
    using Inr by (auto simp: processed_rows_def)
qed

subsection \<open>Identity columns\<close>

lemma blank_to_nan_NaN:
  "blank_to_nan x = NaN \<longleftrightarrow> x = NaN \<or> (\<exists>s. x = Str s \<and> py_strip s = [])"
  by (cases x) (auto simp: blank_to_nan_def py_strip_empty_iff)

lemma blank_to_nan_Str: "blank_to_nan x = Str s \<Longrightarrow> py_strip s \<noteq> []"
  by (cases x) (auto simp: blank_to_nan_def py_strip_empty_iff split: if_splits)

lemma length_ffill [simp]: "length (ffill prev xs) = length xs"
  by (induction xs arbitrary: prev) auto

lemma set_ffill: "set (ffill prev xs) \<subseteq> insert prev (set xs)"
  by (induction xs arbitrary: prev) auto

lemma ffill_nth:
  "i < length xs \<Longrightarrow>
     ffill prev xs ! i
       = (case filter (\<lambda>x. x \<noteq> NaN) (take (Suc i) xs) of [] \<Rightarrow> prev | y # ys \<Rightarrow> last (y # ys))"
proof (induction xs arbitrary: prev i)
  case Nil
  then show ?case by simp
next
  case (Cons x xs)
  show ?case
  proof (cases i)
    case 0
    then show ?thesis by simp
  next
    case (Suc n)
    with Cons.prems have n: "n < length xs"
      by simp
    show ?thesis
    proof (cases "x = NaN")
      case True
      with Suc Cons.IH [OF n, of prev] show ?thesis
        by simp
    next
      case False
      with Suc Cons.IH [OF n, of x] show ?thesis
        by (auto split: list.splits)
    qed
  qed
qed

lemma map_fst_filter_zip:
  "length xs = length ys \<Longrightarrow> map fst (filter (\<lambda>p. P (fst p)) (zip xs ys)) = filter P xs"
  by (induction xs ys rule: list_induct2) auto

lemma data_rows_names:
  "map fst (data_rows g)
     = filter (\<lambda>e. e \<noteq> NaN) (ffill NaN (map (\<lambda>r. blank_to_nan (cell_at r 1)) (drop 3 g)))"
proof -
  let ?col1 = "ffill NaN (map (\<lambda>r. blank_to_nan (cell_at r 1)) (drop 3 g))"
  let ?rest = "zip (ffill NaN (map (\<lambda>r. blank_to_nan (cell_at r 2)) (drop 3 g))) (drop 3 g)"
  have "data_rows g = filter (\<lambda>p. fst p \<noteq> NaN) (zip ?col1 ?rest)"
    by (simp add: data_rows_def Let_def case_prod_unfold)
  moreover have "length ?col1 = length ?rest"
    by simp
  ultimately show ?thesis
    using map_fst_filter_zip [of ?col1 ?rest "\<lambda>e. e \<noteq> NaN"] by simp
qed

lemma data_rows_name:
  assumes "(emp_name, location, r) \<in> set (data_rows g)"
  shows "emp_name \<noteq> NaN \<and> (\<forall>s. emp_name = Str s \<longrightarrow> py_strip s \<noteq> [])"
proof -
  from assms have "emp_name \<in> set (map fst (data_rows g))"
    by force
  then have ne: "emp_name \<noteq> NaN"
    and "emp_name \<in> set (ffill NaN (map (\<lambda>r. blank_to_nan (cell_at r 1)) (drop 3 g)))"
    unfolding data_rows_names by auto
  with set_ffill [of NaN "map (\<lambda>r. blank_to_nan (cell_at r 1)) (drop 3 g)"]
  have "emp_name \<in> set (map (\<lambda>r. blank_to_nan (cell_at r 1)) (drop 3 g))"
    by auto
  then obtain r' where "emp_name = blank_to_nan (cell_at r' 1)"
    by auto
  then have "\<forall>s. emp_name = Str s \<longrightarrow> py_strip s \<noteq> []"
    using blank_to_nan_Str by metis
  with ne show ?thesis
    by simp
qed

lemma zip3_nth_map:
  "length xs = n \<Longrightarrow> length ys = n \<Longrightarrow> length zs = n \<Longrightarrow>
     zip xs (zip ys zs) = map (\<lambda>i. (xs ! i, ys ! i, zs ! i)) [0..<n]"
  by (simp add: list_eq_iff_nth_eq)

lemma data_rows_index:
  "data_rows g =
     (let data = drop 3 g;
          name = (\<lambda>i. case filter (\<lambda>x. x \<noteq> NaN)
                           (take (Suc i) (map (\<lambda>r. blank_to_nan (cell_at r 1)) data)) of
                         [] \<Rightarrow> NaN | y # ys \<Rightarrow> last (y # ys));
          loc = (\<lambda>i. case filter (\<lambda>x. x \<noteq> NaN)
                          (take (Suc i) (map (\<lambda>r. blank_to_nan (cell_at r 2)) data)) of
                        [] \<Rightarrow> NaN | y # ys \<Rightarrow> last (y # ys))
      in map (\<lambda>i. (name i, loc i, data ! i)) (filter (\<lambda>i. name i \<noteq> NaN) [0..<length data]))"
proof -
  let ?data = "drop 3 g"
  let ?n = "length ?data"
  let ?c1 = "ffill NaN (map (\<lambda>r. blank_to_nan (cell_at r 1)) ?data)"
  let ?c2 = "ffill NaN (map (\<lambda>r. blank_to_nan (cell_at r 2)) ?data)"
  let ?name = "\<lambda>i. case filter (\<lambda>x. x \<noteq> NaN)
                       (take (Suc i) (map (\<lambda>r. blank_to_nan (cell_at r 1)) ?data)) of
                     [] \<Rightarrow> NaN | y # ys \<Rightarrow> last (y # ys)"
  let ?loc = "\<lambda>i. case filter (\<lambda>x. x \<noteq> NaN)
                      (take (Suc i) (map (\<lambda>r. blank_to_nan (cell_at r 2)) ?data)) of
                    [] \<Rightarrow> NaN | y # ys \<Rightarrow> last (y # ys)"
  have z: "zip ?c1 (zip ?c2 ?data) = map (\<lambda>i. (?c1 ! i, ?c2 ! i, ?data ! i)) [0..<?n]"
    by (rule zip3_nth_map) simp_all
  have "data_rows g
      = filter (\<lambda>(emp_name, location, r). emp_name \<noteq> NaN) (zip ?c1 (zip ?c2 ?data))"
    by (simp add: data_rows_def Let_def)
  also have "\<dots> = map (\<lambda>i. (?c1 ! i, ?c2 ! i, ?data ! i)) (filter (\<lambda>i. ?c1 ! i \<noteq> NaN) [0..<?n])"
    unfolding z by (simp add: filter_map comp_def)
  finally have A: "data_rows g
      = map (\<lambda>i. (?c1 ! i, ?c2 ! i, ?data ! i)) (filter (\<lambda>i. ?c1 ! i \<noteq> NaN) [0..<?n])" .
  have N: "?c1 ! i = ?name i" if "i < ?n" for i
    using that ffill_nth [of i "map (\<lambda>r. blank_to_nan (cell_at r 1)) ?data" NaN] by simp
  have L: "?c2 ! i = ?loc i" if "i < ?n" for i
    using that ffill_nth [of i "map (\<lambda>r. blank_to_nan (cell_at r 2)) ?data" NaN] by simp
  have F: "filter (\<lambda>i. ?c1 ! i \<noteq> NaN) [0..<?n] = filter (\<lambda>i. ?name i \<noteq> NaN) [0..<?n]"
  proof (rule filter_cong [OF refl])
    fix i
    assume "i \<in> set [0..<?n]"
    then have "i < ?n"
      by simp
    from N [OF this] show "(?c1 ! i \<noteq> NaN) = (?name i \<noteq> NaN)"
      by (simp only:)
  qed
  have M: "map (\<lambda>i. (?c1 ! i, ?c2 ! i, ?data ! i)) (filter (\<lambda>i. ?name i \<noteq> NaN) [0..<?n])
      = map (\<lambda>i. (?name i, ?loc i, ?data ! i)) (filter (\<lambda>i. ?name i \<noteq> NaN) [0..<?n])"
  proof (rule map_cong [OF refl])
    fix i
    assume "i \<in> set (filter (\<lambda>i. ?name i \<noteq> NaN) [0..<?n])"
    then have "i < ?n"
      by simp
    from N [OF this] L [OF this] show "(?c1 ! i, ?c2 ! i, ?data ! i) = (?name i, ?loc i, ?data ! i)"
      by (simp only:)
  qed
  show ?thesis
    unfolding Let_def A F M ..
qed

lemma row_entries_names:
  "map Employee_Name (map post_process (row_entries cm (emp_name, location, r)))
     = replicate (length (row_entries cm (emp_name, location, r))) emp_name"
proof -
  let ?es = "row_entries cm (emp_name, location, r)"
  have "map (\<lambda>en. Employee_Name (post_process en)) ?es = map (\<lambda>en. emp_name) ?es"
    by (rule map_cong [OF refl]) (simp add: row_entries_identity)
  then show ?thesis
    by (simp add: map_replicate_const comp_def)
qed

lemma load_rows:
  "fst (load_and_clean_data (Inr g))
     = (if total_cols g < 3 \<or> length g < 3 then []
        else concat (map (\<lambda>rw. map post_process (row_entries (col_map g) rw)) (data_rows g)))"
  by (simp add: load_and_clean_data_def process_def Let_def processed_rows_def map_concat
      comp_def)

text \<open>
  Claim C4. Every returned record has an employee name that is not missing and, when it
  is text, is not empty after trimming. A cell that is missing or blank after trimming
  becomes NaN; forward fill gives row \<open>i\<close> the last cell that is not NaN among rows 0
  to \<open>i\<close>, and NaN when there is none. The rows kept are those whose filled name is not
  NaN, in order, every other row is discarded; a kept row carries its own filled name, its
  own filled location and its own cells. The records are those reconstructed from the kept
  rows, in order, and every record reconstructed from a row carries the name of that row.
\<close>

theorem employee_name_never_blank:
  "(\<forall>t \<in> set (fst (load_and_clean_data src)).
       Employee_Name t \<noteq> NaN \<and> (\<forall>s. Employee_Name t = Str s \<longrightarrow> py_strip s \<noteq> []))
   \<and> (blank_to_nan x = NaN \<longleftrightarrow> x = NaN \<or> (\<exists>s. x = Str s \<and> py_strip s = []))
   \<and> (i < length xs \<longrightarrow>
        ffill NaN xs ! i
          = (case filter (\<lambda>x. x \<noteq> NaN) (take (Suc i) xs) of
               [] \<Rightarrow> NaN | y # ys \<Rightarrow> last (y # ys)))
   \<and> map fst (data_rows g)
        = filter (\<lambda>e. e \<noteq> NaN)
            (ffill NaN (map (\<lambda>r. blank_to_nan (cell_at r 1)) (drop 3 g)))
   \<and> data_rows g =
       (let data = drop 3 g;
            name = (\<lambda>i. case filter (\<lambda>x. x \<noteq> NaN)
                             (take (Suc i) (map (\<lambda>r. blank_to_nan (cell_at r 1)) data)) of
                           [] \<Rightarrow> NaN | y # ys \<Rightarrow> last (y # ys));
            loc = (\<lambda>i. case filter (\<lambda>x. x \<noteq> NaN)
                            (take (Suc i) (map (\<lambda>r. blank_to_nan (cell_at r 2)) data)) of
                          [] \<Rightarrow> NaN | y # ys \<Rightarrow> last (y # ys))
        in map (\<lambda>i. (name i, loc i, data ! i))
             (filter (\<lambda>i. name i \<noteq> NaN) [0..<length data]))
   \<and> fst (load_and_clean_data (Inr g))
       = (if total_cols g < 3 \<or> length g < 3 then []
          else concat (map (\<lambda>rw. map post_process (row_entries (col_map g) rw))
                 (data_rows g)))
   \<and> map Employee_Name (map post_process (row_entries cm (emp_name, location, r)))
       = replicate (length (row_entries cm (emp_name, location, r))) emp_name"
proof -
  have a: "\<forall>t \<in> set (fst (load_and_clean_data src)).
       Employee_Name t \<noteq> NaN \<and> (\<forall>s. Employee_Name t = Str s \<longrightarrow> py_strip s \<noteq> [])"
  proof
    fix t
    assume "t \<in> set (fst (load_and_clean_data src))"
    from load_records [OF this] obtain g rw en where
      rw: "rw \<in> set (data_rows g)" and en: "en \<in> set (row_entries (col_map g) rw)"
      and t: "t = post_process en"
      by blast
    obtain emp_name location r where rw_eq: "rw = (emp_name, location, r)"
      by (cases rw) auto
    from row_entries_identity [OF en [unfolded rw_eq]] t
    have "Employee_Name t = emp_name"
      by simp
    with data_rows_name [OF rw [unfolded rw_eq]]
    show "Employee_Name t \<noteq> NaN \<and> (\<forall>s. Employee_Name t = Str s \<longrightarrow> py_strip s \<noteq> [])"
      by simp
  qed
  have c: "i < length xs \<longrightarrow>
        ffill NaN xs ! i
          = (case filter (\<lambda>x. x \<noteq> NaN) (take (Suc i) xs) of
               [] \<Rightarrow> NaN | y # ys \<Rightarrow> last (y # ys))"
    using ffill_nth by blast
  show ?thesis
    by (intro conjI)
      (fact a, fact blank_to_nan_NaN, fact c, fact data_rows_names, fact data_rows_index,
       fact load_rows, fact row_entries_names)
qed

theorem employee_name_never_blank_witness:
  "fst (load_and_clean_data (Inr continuation_frame)) \<noteq> []
   \<and> Employee_Name (hd (fst (load_and_clean_data (Inr continuation_frame)))) \<noteq> NaN
   \<and> map Employee_Name (fst (load_and_clean_data (Inr continuation_frame)))
       = [Str ''Asha'', Str ''Asha'']
   \<and> (2::nat) < length [NaN, Str ''Asha'', NaN]
   \<and> ffill NaN [NaN, Str ''Asha'', NaN] ! 2 = Str ''Asha''
   \<and> map fst (data_rows continuation_frame) = [Str ''Asha'', Str ''Asha'']
   \<and> data_rows continuation_frame
       = [(Str ''Asha'', NaN, continuation_frame ! 4), (Str ''Asha'', NaN, continuation_frame ! 5)]
   \<and> map (\<lambda>t. (Employee_Name t, Activity_Category t))
         (fst (load_and_clean_data (Inr continuation_frame)))
       = [(Str ''Asha'', Str ''Training''), (Str ''Asha'', Str ''Travel'')]"
proof -
  let ?F = continuation_frame
  note T = employee_name_never_blank [where src = "Inr ?F" and g = ?F and i = 2
      and xs = "[NaN, Str ''Asha'', NaN]"]
  have ne: "fst (load_and_clean_data (Inr ?F)) \<noteq> []"
    by code_simp
  then have "hd (fst (load_and_clean_data (Inr ?F))) \<in> set (fst (load_and_clean_data (Inr ?F)))"
    by simp
  with T have a: "Employee_Name (hd (fst (load_and_clean_data (Inr ?F)))) \<noteq> NaN"
    by blast
  have names: "map Employee_Name (fst (load_and_clean_data (Inr ?F))) = [Str ''Asha'', Str ''Asha'']"
    by code_simp
  have len: "(2::nat) < length [NaN, Str ''Asha'', NaN]"
    by simp
  with T have b: "ffill NaN [NaN, Str ''Asha'', NaN] ! 2 = Str ''Asha''"
    by simp
  have c: "map fst (data_rows ?F) = [Str ''Asha'', Str ''Asha'']"
    by code_simp
  have d: "data_rows ?F = [(Str ''Asha'', NaN, ?F ! 4), (Str ''Asha'', NaN, ?F ! 5)]"
    by code_simp
  have e: "map (\<lambda>t. (Employee_Name t, Activity_Category t)) (fst (load_and_clean_data (Inr ?F)))
      = [(Str ''Asha'', Str ''Training''), (Str ''Asha'', Str ''Travel'')]"
    by code_simp
  show ?thesis
    by (intro conjI) (fact ne, fact a, fact names, fact len, fact b, fact c, fact d, fact e)
qed

subsection \<open>Row reconstruction\<close>

lemma dict_get_Some: "td f = Some v \<Longrightarrow> dict_get td f dflt = v"
  by (simp add: dict_get_def)

text \<open>
  Claim C8. Let \<open>c\<close> be the last column of the role map that carries the date \<open>d\<close> and
  the field \<open>f\<close>. Then the row has a group for \<open>d\<close> whose field \<open>f\<close> is the cell of
  column \<open>c\<close>; the entries of the row for \<open>d\<close> are that group's entry (or none, when
  the group has no text), and the entry holds the cell of column \<open>c\<close> in the column of
  \<open>f\<close>, coerced in the returned record when \<open>f\<close> is the work time. Columns that repeat
  a date and a field raise nothing: a frame with three columns and three rows is
  processed without an exception.
\<close>

theorem last_write_wins:
  assumes "cm = pre @ (c, d, f) # post"
    and "\<forall>(c', d', f') \<in> set post. \<not> (d' = d \<and> f' = f)"
  shows "(\<exists>td. (d, td) \<in> set (group_cells r cm [])
           \<and> td f = Some (cell_at r c)
           \<and> filter (\<lambda>en. Date en = d) (row_entries cm (emp_name, location, r))
               = (if skip_task td then [] else [make_entry emp_name location d td])
           \<and> (f = ''Attendance_Status'' \<longrightarrow>
                 Attendance (make_entry emp_name location d td) = cell_at r c)
           \<and> (f = ''Activity Category'' \<longrightarrow>
                 Activity_Category (make_entry emp_name location d td) = cell_at r c)
           \<and> (f = ''Task Priority'' \<longrightarrow>
                 Task_Priority (make_entry emp_name location d td) = cell_at r c)
           \<and> (f = ''Start Time'' \<longrightarrow>
                 Start_Time (make_entry emp_name location d td) = cell_at r c)
           \<and> (f = ''End Time'' \<longrightarrow>
                 End_Time (make_entry emp_name location d td) = cell_at r c)
           \<and> (f = ''Work Time (Mins)'' \<longrightarrow>
                 Work_Time_Mins (make_entry emp_name location d td) = cell_at r c)
           \<and> (f = ''Work Time (Mins)'' \<longrightarrow>
                 Work_Time_Mins (post_process (make_entry emp_name location d td))
                   = clean_minutes (cell_at r c))
           \<and> (f = ''Description'' \<longrightarrow>
                 Description (make_entry emp_name location d td) = cell_at r c))
     \<and> (3 \<le> total_cols g \<and> 3 \<le> length g \<longrightarrow> (\<exists>res. process g = Inr res))"
proof -
  from group_cells_last_write [OF assms, of r "[]"]
  obtain td where look: "map_of (group_cells r cm []) d = Some td"
    and val: "td f = Some (cell_at r c)"
    by blast
  from look have mem: "(d, td) \<in> set (group_cells r cm [])"
    by (rule map_of_SomeD)
  have dist: "distinct (map fst (group_cells r cm []))"
    by (rule group_cells_distinct) simp
  have grp: "filter (\<lambda>en. Date en = d) (row_entries cm (emp_name, location, r))
               = (if skip_task td then [] else [make_entry emp_name location d td])"
    unfolding row_entries_def using flatten_tasks_group [OF dist mem] by simp
  have get: "\<And>dflt. dict_get td f dflt = cell_at r c"
    using val by (rule dict_get_Some)
  have no_exn: "3 \<le> total_cols g \<and> 3 \<le> length g \<longrightarrow> (\<exists>res. process g = Inr res)"
    by (simp add: process_ok)
  show ?thesis
  proof (intro exI conjI)
    show "3 \<le> total_cols g \<and> 3 \<le> length g \<longrightarrow> (\<exists>res. process g = Inr res)"
      by (fact no_exn)
    show "(d, td) \<in> set (group_cells r cm [])"
      by (fact mem)
    show "td f = Some (cell_at r c)"
      by (fact val)
    show "filter (\<lambda>en. Date en = d) (row_entries cm (emp_name, location, r))
               = (if skip_task td then [] else [make_entry emp_name location d td])"
      by (fact grp)
    show "f = ''Attendance_Status'' \<longrightarrow>
              Attendance (make_entry emp_name location d td) = cell_at r c"
      using get [of NaN] by (clarsimp simp: make_entry_def)
    show "f = ''Activity Category'' \<longrightarrow>
              Activity_Category (make_entry emp_name location d td) = cell_at r c"
      using get [of NaN] by (clarsimp simp: make_entry_def)
    show "f = ''Task Priority'' \<longrightarrow>
              Task_Priority (make_entry emp_name location d td) = cell_at r c"
      using get [of NaN] by (clarsimp simp: make_entry_def)
    show "f = ''Start Time'' \<longrightarrow>
              Start_Time (make_entry emp_name location d td) = cell_at r c"
      using get [of NaN] by (clarsimp simp: make_entry_def)
    show "f = ''End Time'' \<longrightarrow>
              End_Time (make_entry emp_name location d td) = cell_at r c"
      using get [of NaN] by (clarsimp simp: make_entry_def)
    show "f = ''Work Time (Mins)'' \<longrightarrow>
              Work_Time_Mins (make_entry emp_name location d td) = cell_at r c"
      using get [of "Num 0"] by (clarsimp simp: make_entry_def)
    show "f = ''Work Time (Mins)'' \<longrightarrow>
              Work_Time_Mins (post_process (make_entry emp_name location d td))
                  = clean_minutes (cell_at r c)"
      using get [of "Num 0"] by (clarsimp simp: make_entry_def post_process_def)
    show "f = ''Description'' \<longrightarrow>
              Description (make_entry emp_name location d td) = cell_at r c"
      using get [of "Str []"] by (clarsimp simp: make_entry_def)
  qed
qed

theorem last_write_wins_witness:
  "col_map duplicate_start_frame
     = [(7, ''Sat, Nov 01, 25'', ''Activity Category''),
        (8, ''Sat, Nov 01, 25'', ''Start Time'')]
       @ (9, ''Sat, Nov 01, 25'', ''Start Time'')
       # [(10, ''Sat, Nov 01, 25'', ''Description'')]
   \<and> (\<exists>td. (''Sat, Nov 01, 25'', td)
              \<in> set (group_cells (duplicate_start_frame ! 3) (col_map duplicate_start_frame) [])
          \<and> Start_Time (make_entry (Str ''Asha'') (Str ''Pune'') ''Sat, Nov 01, 25'' td)
              = Str ''10:30'')
   \<and> (\<exists>res. process duplicate_start_frame = Inr res)
   \<and> map Start_Time (fst (load_and_clean_data (Inr duplicate_start_frame))) = [Str ''10:30'']"
proof -
  let ?F = duplicate_start_frame
  let ?d = "''Sat, Nov 01, 25''"
  have h1: "col_map ?F
     = [(7, ?d, ''Activity Category''), (8, ?d, ''Start Time'')]
       @ (9, ?d, ''Start Time'') # [(10, ?d, ''Description'')]"
    by code_simp
  have h2: "\<forall>(c', d', f') \<in> set [(10::nat, ?d, ''Description'')].
              \<not> (d' = ?d \<and> f' = ''Start Time'')"
    by simp
  have h3: "3 \<le> total_cols ?F \<and> 3 \<le> length ?F"
    by code_simp
  have cell: "cell_at (?F ! 3) 9 = Str ''10:30''"
    by code_simp
  have out: "map Start_Time (fst (load_and_clean_data (Inr ?F))) = [Str ''10:30'']"
    by code_simp
  note T = last_write_wins [OF h1 h2, where r = "?F ! 3" and emp_name = "Str ''Asha''"
      and location = "Str ''Pune''" and g = ?F]
  obtain td where
    mem: "(?d, td) \<in> set (group_cells (?F ! 3) (col_map ?F) [])"
    and st: "''Start Time'' = ''Start Time'' \<longrightarrow>
      Start_Time (make_entry (Str ''Asha'') (Str ''Pune'') ?d td) = cell_at (?F ! 3) 9"
    using T [THEN conjunct1] by (elim exE conjE) (rule that, assumption+)
  from st cell have "Start_Time (make_entry (Str ''Asha'') (Str ''Pune'') ?d td) = Str ''10:30''"
    by simp
  with mem have a: "\<exists>td. (?d, td) \<in> set (group_cells (?F ! 3) (col_map ?F) [])
          \<and> Start_Time (make_entry (Str ''Asha'') (Str ''Pune'') ?d td) = Str ''10:30''"
    by (intro exI conjI)
  from T [THEN conjunct2] h3 have b: "\<exists>res. process ?F = Inr res"
    by (rule mp)
  show ?thesis
    by (intro conjI) (fact h1, fact a, fact b, fact out)
qed

text \<open>
  Claim C1, as amended. On a frame with its identity columns and header rows, the
  returned records are, row by row of the data kept, the entries of the groups of that
  row; the message is none or "No data found.". For every group of a row, keyed by its
  date label, the records of that row with that label are exactly one, the group's
  record, unless both the Activity Category and the Description of the group (the empty
  text when the group has no such field) are, after trimming, empty or \<^verbatim>\<open>nan\<close> in
  any letter case: then there is none.
\<close>

theorem task_emitted_iff_text:
  assumes "3 \<le> total_cols g" and "3 \<le> length g"
    and "(emp_name, location, r) \<in> set (data_rows g)"
    and "(d, td) \<in> set (group_cells r (col_map g) [])"
  shows "fst (load_and_clean_data (Inr g))
           = concat (map (\<lambda>rw. map post_process (row_entries (col_map g) rw)) (data_rows g))
     \<and> (snd (load_and_clean_data (Inr g)) = None
          \<or> snd (load_and_clean_data (Inr g)) = Some No_data_found)
     \<and> filter (\<lambda>t. Date t = d)
          (map post_process (row_entries (col_map g) (emp_name, location, r)))
         = (let activity = py_strip (py_str (dict_get td ''Activity Category'' (Str '''')));
                desc = py_strip (py_str (dict_get td ''Description'' (Str '''')))
            in if (activity = [] \<or> py_lower activity = ''nan'')
                  \<and> (desc = [] \<or> py_lower desc = ''nan'')
               then []
               else [post_process (make_entry emp_name location d td)])"
proof -
  have out: "fst (load_and_clean_data (Inr g))
           = concat (map (\<lambda>rw. map post_process (row_entries (col_map g) rw)) (data_rows g))"
    unfolding load_ok [OF assms(1,2)] by (simp add: processed_rows_def map_concat comp_def)
  have msg: "snd (load_and_clean_data (Inr g)) = None
          \<or> snd (load_and_clean_data (Inr g)) = Some No_data_found"
    unfolding load_ok [OF assms(1,2)] by simp
  have dist: "distinct (map fst (group_cells r (col_map g) []))"
    by (rule group_cells_distinct) simp
  have "filter (\<lambda>t. Date t = d)
          (map post_process (row_entries (col_map g) (emp_name, location, r)))
        = map post_process (filter (\<lambda>en. Date en = d)
            (flatten_tasks emp_name location (group_cells r (col_map g) [])))"
    by (simp add: row_entries_def filter_map comp_def)
  also have "\<dots> = (if skip_task td then [] else [post_process (make_entry emp_name location d td)])"
    unfolding flatten_tasks_group [OF dist assms(4)] by simp
  finally have grp: "filter (\<lambda>t. Date t = d)
          (map post_process (row_entries (col_map g) (emp_name, location, r)))
         = (if skip_task td then [] else [post_process (make_entry emp_name location d td)])" .
  from out msg grp show ?thesis
    by (simp add: skip_task_def no_text_def Let_def)
qed

theorem task_emitted_iff_text_witness:
  "3 \<le> total_cols continuation_frame \<and> 3 \<le> length continuation_frame
   \<and> (Str ''Asha'', NaN, continuation_frame ! 4) \<in> set (data_rows continuation_frame)
   \<and> (\<exists>td. (''Sat, Nov 01, 25'', td)
              \<in> set (group_cells (continuation_frame ! 4) (col_map continuation_frame) [])
          \<and> filter (\<lambda>t. Date t = ''Sat, Nov 01, 25'')
               (map post_process
                  (row_entries (col_map continuation_frame)
                     (Str ''Asha'', NaN, continuation_frame ! 4)))
             = [post_process (make_entry (Str ''Asha'') NaN ''Sat, Nov 01, 25'' td)])
   \<and> map Activity_Category (fst (load_and_clean_data (Inr continuation_frame)))
       = [Str ''Training'', Str ''Travel'']"
proof -
  let ?F = continuation_frame
  let ?d = "''Sat, Nov 01, 25''"
  have h1: "3 \<le> total_cols ?F" and h2: "3 \<le> length ?F"
    by code_simp+
  have h3: "(Str ''Asha'', NaN, ?F ! 4) \<in> set (data_rows ?F)"
    by code_simp
  have "map (\<lambda>(d, td). (d, td ''Activity Category''))
          (group_cells (?F ! 4) (col_map ?F) []) = [(?d, Some (Str ''Training''))]"
    by code_simp
  then obtain td where h4: "(?d, td) \<in> set (group_cells (?F ! 4) (col_map ?F) [])"
    and act: "td ''Activity Category'' = Some (Str ''Training'')"
    by (auto simp: map_eq_Cons_conv)
  have has_text: "py_strip (py_str (Str ''Training'')) \<noteq> []
              \<and> py_lower (py_strip (py_str (Str ''Training''))) \<noteq> ''nan''"
    by code_simp
  have out: "map Activity_Category (fst (load_and_clean_data (Inr ?F)))
       = [Str ''Training'', Str ''Travel'']"
    by code_simp
  from task_emitted_iff_text [OF h1 h2 h3 h4]
  have "filter (\<lambda>t. Date t = ?d)
               (map post_process (row_entries (col_map ?F) (Str ''Asha'', NaN, ?F ! 4)))
             = [post_process (make_entry (Str ''Asha'') NaN ?d td)]"
    using act has_text by (simp add: dict_get_def Let_def)
  with h1 h2 h3 h4 out show ?thesis
    by blast
qed

text \<open>
  The claim as first stated tests only for text that is empty after trimming. In this
  frame the one group of the one data row has no Activity Category and the Description
  "NAN", which trimming leaves as it is; no record is returned for it.
\<close>

theorem task_dropped_counterexample:
  "3 \<le> total_cols nan_text_frame \<and> 3 \<le> length nan_text_frame
   \<and> data_rows nan_text_frame = [(Str ''Asha'', Str ''Pune'', nan_text_frame ! 3)]
   \<and> col_map nan_text_frame
       = [(7, ''Sat, Nov 01, 25'', ''Activity Category''),
          (8, ''Sat, Nov 01, 25'', ''Work Time (Mins)''),
          (9, ''Sat, Nov 01, 25'', ''Description'')]
   \<and> map fst (group_cells (nan_text_frame ! 3) (col_map nan_text_frame) [])
       = [''Sat, Nov 01, 25'']
   \<and> cell_at (nan_text_frame ! 3) 9 = Str ''NAN''
   \<and> py_strip ''NAN'' = ''NAN''
   \<and> load_and_clean_data (Inr nan_text_frame) = ([], Some No_data_found)"
  by code_simp

subsection \<open>Location\<close>

lemma map_filter_zip3:
  "length xs = length ys \<Longrightarrow> length ys = length zs \<Longrightarrow>
     map (\<lambda>(e, l, r). (e, r)) (filter (\<lambda>(e, l, r). P e) (zip xs (zip ys zs)))
       = filter (\<lambda>(e, r). P e) (zip xs zs)"
  by (induction xs ys zs rule: list_induct3) auto

lemma make_entry_location:
  "make_entry emp_name location d td = (make_entry emp_name NaN d td)\<lparr>Location := location\<rparr>"
  by (simp add: make_entry_def)

text \<open>
  Claim C10. Which rows are kept, and with which name, is a function of column 1 alone.
  A row whose location is blank on it and on every row above, and whose filled name is
  not NaN, is kept with the location NaN. The entries of a row are the same whatever
  its location, which is copied into each of them: with the location NaN every entry,
  and every returned record made from it, has the location NaN.
\<close>

theorem location_never_filters:
  "map (\<lambda>(e, l, r). (e, r)) (data_rows g)
     = filter (\<lambda>(e, r). e \<noteq> NaN)
         (zip (ffill NaN (map (\<lambda>r. blank_to_nan (cell_at r 1)) (drop 3 g))) (drop 3 g))
   \<and> (i < length (drop 3 g)
        \<and> (\<forall>j. j \<le> i \<longrightarrow> blank_to_nan (cell_at (drop 3 g ! j) 2) = NaN)
        \<and> ffill NaN (map (\<lambda>r. blank_to_nan (cell_at r 1)) (drop 3 g)) ! i \<noteq> NaN
      \<longrightarrow> (ffill NaN (map (\<lambda>r. blank_to_nan (cell_at r 1)) (drop 3 g)) ! i, NaN, drop 3 g ! i)
            \<in> set (data_rows g))
   \<and> row_entries cm (emp_name, location, r)
        = map (\<lambda>en. en\<lparr>Location := location\<rparr>) (row_entries cm (emp_name, NaN, r))
   \<and> list_all (\<lambda>en. Location en = NaN) (row_entries cm (emp_name, NaN, r))
   \<and> Location (post_process en) = Location en"
proof -
  let ?data = "drop 3 g"
  let ?col1 = "ffill NaN (map (\<lambda>r. blank_to_nan (cell_at r 1)) ?data)"
  let ?col2 = "ffill NaN (map (\<lambda>r. blank_to_nan (cell_at r 2)) ?data)"
  have rows: "data_rows g = filter (\<lambda>(e, l, r). e \<noteq> NaN) (zip ?col1 (zip ?col2 ?data))"
    by (simp add: data_rows_def Let_def)
  have a: "map (\<lambda>(e, l, r). (e, r)) (data_rows g)
             = filter (\<lambda>(e, r). e \<noteq> NaN) (zip ?col1 ?data)"
    unfolding rows by (rule map_filter_zip3) simp_all
  have b: "i < length ?data
        \<and> (\<forall>j. j \<le> i \<longrightarrow> blank_to_nan (cell_at (?data ! j) 2) = NaN)
        \<and> ?col1 ! i \<noteq> NaN
      \<longrightarrow> (?col1 ! i, NaN, ?data ! i) \<in> set (data_rows g)"
  proof
    assume h: "i < length ?data
        \<and> (\<forall>j. j \<le> i \<longrightarrow> blank_to_nan (cell_at (?data ! j) 2) = NaN)
        \<and> ?col1 ! i \<noteq> NaN"
    then have i: "i < length ?data" and name: "?col1 ! i \<noteq> NaN"
      and blank: "\<And>j. j \<le> i \<Longrightarrow> blank_to_nan (cell_at (?data ! j) 2) = NaN"
      by auto
    let ?raw2 = "map (\<lambda>r. blank_to_nan (cell_at r 2)) ?data"
    have "\<forall>x \<in> set (take (Suc i) ?raw2). x = NaN"
    proof
      fix x
      assume "x \<in> set (take (Suc i) ?raw2)"
      then obtain j where "j < length (take (Suc i) ?raw2)" "x = take (Suc i) ?raw2 ! j"
        by (auto simp: in_set_conv_nth)
      with i blank [of j] show "x = NaN"
        by simp
    qed
    then have "filter (\<lambda>x. x \<noteq> NaN) (take (Suc i) ?raw2) = []"
      by (simp add: filter_empty_conv)
    with ffill_nth [of i ?raw2 NaN] i have loc: "?col2 ! i = NaN"
      by simp
    from i have "zip ?col1 (zip ?col2 ?data) ! i = (?col1 ! i, ?col2 ! i, ?data ! i)"
      by simp
    moreover from i have "i < length (zip ?col1 (zip ?col2 ?data))"
      by simp
    ultimately have "(?col1 ! i, ?col2 ! i, ?data ! i) \<in> set (zip ?col1 (zip ?col2 ?data))"
      by (metis nth_mem)
    with loc name show "(?col1 ! i, NaN, ?data ! i) \<in> set (data_rows g)"
      unfolding rows by simp
  qed
  have c: "row_entries cm (emp_name, location, r)
        = map (\<lambda>en. en\<lparr>Location := location\<rparr>) (row_entries cm (emp_name, NaN, r))"
    by (simp add: row_entries_def flatten_tasks_filter comp_def case_prod_unfold
          make_entry_location [of emp_name location])
  have d: "list_all (\<lambda>en. Location en = NaN) (row_entries cm (emp_name, NaN, r))"
    using row_entries_identity [of _ cm emp_name NaN r] by (simp add: list_all_iff)
  have e: "Location (post_process en) = Location en"
    by simp
  show ?thesis
    by (intro conjI) (fact a, fact b, fact c, fact d, fact e)
qed

theorem location_never_filters_witness:
  "(1::nat) < length (drop 3 continuation_frame)
   \<and> blank_to_nan (cell_at (drop 3 continuation_frame ! 0) 2) = NaN
   \<and> blank_to_nan (cell_at (drop 3 continuation_frame ! 1) 2) = NaN
   \<and> (Str ''Asha'', NaN, drop 3 continuation_frame ! 1) \<in> set (data_rows continuation_frame)
   \<and> map Location (fst (load_and_clean_data (Inr continuation_frame))) = [NaN, NaN]"
proof -
  let ?F = continuation_frame
  let ?col1 = "ffill NaN (map (\<lambda>r. blank_to_nan (cell_at r 1)) (drop 3 ?F))"
  have len: "(1::nat) < length (drop 3 ?F)"
    by code_simp
  have b0: "blank_to_nan (cell_at (drop 3 ?F ! 0) 2) = NaN"
    by code_simp
  have b1: "blank_to_nan (cell_at (drop 3 ?F ! 1) 2) = NaN"
    by code_simp
  have blank: "\<forall>j. j \<le> 1 \<longrightarrow> blank_to_nan (cell_at (drop 3 ?F ! j) 2) = NaN"
  proof (intro allI impI)
    fix j :: nat
    assume "j \<le> 1"
    then have "j = 0 \<or> j = 1" by arith
    with b0 b1 show "blank_to_nan (cell_at (drop 3 ?F ! j) 2) = NaN" by auto
  qed
  have name: "?col1 ! 1 = Str ''Asha''"
    by code_simp
  note T = location_never_filters [where g = ?F and i = 1]
  from T len blank name have kept: "(?col1 ! 1, NaN, drop 3 ?F ! 1) \<in> set (data_rows ?F)"
    by simp
  have out: "map Location (fst (load_and_clean_data (Inr ?F))) = [NaN, NaN]"
    by code_simp
  from len b0 b1 kept [unfolded name] out show ?thesis
    by blast
qed

end
